theory Spec2Isabelle
  imports Complex_Main "HOL-Library.AList" "HOL-Library.Multiset" "HOL-Library.List_Lexorder"
    "HOL-Library.Product_Lexorder"
begin

section \<open>The All Stars 10 season simulator (src/formats/allstars10.js)\<close>

text \<open>
  A shallow embedding of the one source file of the repository. Every function of the
  file has a definition of the same name below, in the order of the file.

  Conventions of the embedding:
  \<^item> a queen name is a \<open>string\<close>; a JavaScript value that may be \<open>undefined\<close>
    (the result of indexing an array) is a \<open>string option\<close>, \<open>None\<close> being \<open>undefined\<close>;
  \<^item> counts and indices are natural numbers, with exact arithmetic (the source's numbers
    are doubles, which are exact on the integers below \<open>2 ^ 53\<close>);
  \<^item> an object used as a dictionary is an association list in insertion order; a name is
    a string that an object stores as an ordinary own property (any string but
    \<^verbatim>\<open>__proto__\<close>);
  \<^item> the random source is the sequence of values its successive calls return, together
    with a cursor that counts the calls made so far; every function that draws takes the
    cursor and returns the new one;
  \<^item> a function that may loop forever returns an \<open>option\<close>, \<open>None\<close> meaning that it
    does not return.
\<close>

subsection \<open>The random source\<close>

text \<open>
  The source documents the option \<open>rng\<close> as \<^verbatim>\<open>a function () => [0,1)\<close>. A draw is a real
  number of that interval; products with an array length and the floor are exact.
\<close>

typedef draw = "{v::real. 0 \<le> v \<and> v < 1}"
  by (rule exI[of _ 0]) simp

setup_lifting type_definition_draw

text \<open>\<^verbatim>\<open>Math.floor(v * n)\<close>\<close>

lift_definition floor_times :: "draw \<Rightarrow> nat \<Rightarrow> nat" is
  "\<lambda>v n. nat \<lfloor>v * real n\<rfloor>" .

text \<open>\<^verbatim>\<open>v < 0.5\<close>\<close>

lift_definition below_half :: "draw \<Rightarrow> bool" is
  "\<lambda>v. v < 1 / 2" .

text \<open>The draw \<open>a / b\<close>, for building concrete random sequences (\<open>0\<close> unless \<open>a < b\<close>).\<close>

lift_definition draw_of :: "nat \<Rightarrow> nat \<Rightarrow> draw" is
  "\<lambda>a b. if a < b then real a / real b else 0"
  by simp

type_synonym rng = "nat \<Rightarrow> draw"

text \<open>
  \<^verbatim>\<open>function pickRandomIndex(arr, rng) { return Math.floor(rng() * arr.length); }\<close>
  The second component is the cursor after the call.
\<close>

definition pickRandomIndex :: "'a list \<Rightarrow> rng \<Rightarrow> nat \<Rightarrow> nat \<times> nat" where
  "pickRandomIndex arr rng p = (floor_times (rng p) (length arr), Suc p)"

text \<open>\<^verbatim>\<open>arr[i]\<close>, which is \<open>undefined\<close> out of range.\<close>

definition js_nth :: "'a list \<Rightarrow> nat \<Rightarrow> 'a option" where
  "js_nth arr i = (if i < length arr then Some (arr ! i) else None)"

subsection \<open>chooseTwoWinners\<close>

text \<open>
  \<^verbatim>\<open>do { b = pickRandomIndex(queenNames, rng); } while (b === a);\<close>
  The loop has no bound: it ends at the first draw whose index differs from \<open>a\<close>.
\<close>

partial_function (option) redraw :: "string list \<Rightarrow> rng \<Rightarrow> nat \<Rightarrow> nat \<Rightarrow> (nat \<times> nat) option" where
  "redraw queenNames rng a p =
     (case pickRandomIndex queenNames rng p of
        (b, p') \<Rightarrow> if b = a then redraw queenNames rng a p' else Some (b, p'))"

definition chooseTwoWinners :: "string list \<Rightarrow> rng \<Rightarrow> nat \<Rightarrow> (string list \<times> nat) option" where
  "chooseTwoWinners queenNames rng p =
     (if length queenNames < 2 then Some (queenNames, p)
      else case pickRandomIndex queenNames rng p of
        (a, p1) \<Rightarrow>
          (case redraw queenNames rng a p1 of
             None \<Rightarrow> None
           | Some (b, p2) \<Rightarrow> Some ([queenNames ! a, queenNames ! b], p2)))"

subsection \<open>Point objects\<close>

text \<open>
  The values stored under a key are numbers; \<open>NaN\<close> arises when \<^verbatim>\<open>+=\<close> reads a key
  that is missing, and \<open>Undefined\<close> is what reading a missing key returns.
\<close>

datatype jsval = Num int | NaN | Undefined

fun js_plus :: "jsval \<Rightarrow> jsval \<Rightarrow> jsval" where
  "js_plus (Num a) (Num b) = Num (a + b)"
| "js_plus _ _ = NaN"

fun js_minus :: "jsval \<Rightarrow> jsval \<Rightarrow> jsval" where
  "js_minus (Num a) (Num b) = Num (a - b)"
| "js_minus _ _ = NaN"

type_synonym obj = "(string \<times> jsval) list"

text \<open>\<^verbatim>\<open>obj[k]\<close>\<close>

definition obj_get :: "obj \<Rightarrow> string \<Rightarrow> jsval" where
  "obj_get ob k = (case map_of ob k of None \<Rightarrow> Undefined | Some v \<Rightarrow> v)"

text \<open>\<^verbatim>\<open>obj[k] = v\<close>: an existing key keeps its place, a new key is added last.\<close>

definition obj_set :: "obj \<Rightarrow> string \<Rightarrow> jsval \<Rightarrow> obj" where
  "obj_set ob k v = AList.update k v ob"

text \<open>\<^verbatim>\<open>obj[k] += v\<close>\<close>

definition obj_add :: "obj \<Rightarrow> string \<Rightarrow> jsval \<Rightarrow> obj" where
  "obj_add ob k v = obj_set ob k (js_plus (obj_get ob k) v)"

text \<open>A value used as a property key is converted to a string.\<close>

definition property_key :: "string option \<Rightarrow> string" where
  "property_key v = (case v of None \<Rightarrow> ''undefined'' | Some s \<Rightarrow> s)"

text \<open>
  \<^verbatim>\<open>Object.keys(obj)\<close>: the keys that are array indices (canonical decimal numerals below
  \<open>2 ^ 32 - 1\<close>) in ascending numeric order, then the other keys in insertion order.
\<close>

definition is_digit :: "char \<Rightarrow> bool" where
  "is_digit c = (48 \<le> (of_char c :: nat) \<and> (of_char c :: nat) \<le> 57)"

definition decimal_value :: "string \<Rightarrow> nat" where
  "decimal_value s = foldl (\<lambda>acc c. 10 * acc + (of_char c - 48)) 0 s"

definition is_array_index :: "string \<Rightarrow> bool" where
  "is_array_index s =
     (s \<noteq> [] \<and> list_all is_digit s \<and> (length s = 1 \<or> hd s \<noteq> CHR ''0'')
      \<and> decimal_value s < 4294967295)"

definition objectKeys :: "obj \<Rightarrow> string list" where
  "objectKeys ob =
     sort_key decimal_value (filter is_array_index (map fst ob))
     @ filter (\<lambda>k. \<not> is_array_index k) (map fst ob)"

subsection \<open>runEpisodeSix\<close>

record assignment =
  from_queen :: string
  to_queen :: "string option"

record detail =
  winners :: "string list"
  lipSyncWinner :: "string option"
  mvqAssignments :: "assignment list"

record episodeRes =
  points :: obj
  detail :: detail

text \<open>
  \<^verbatim>\<open>remaining.forEach(from => { ... })\<close>: each remaining queen draws a recipient among
  the others and gives one point; the assignments are pushed in order.
\<close>

fun mvqLoop :: "string list \<Rightarrow> rng \<Rightarrow> string list \<Rightarrow> obj \<Rightarrow> assignment list \<Rightarrow> nat
    \<Rightarrow> obj \<times> assignment list \<times> nat" where
  "mvqLoop queensInEpisode rng [] pts asg p = (pts, asg, p)"
| "mvqLoop queensInEpisode rng (giver # rest) pts asg p =
     (let possible = filter (\<lambda>x. x \<noteq> giver) queensInEpisode in
      case pickRandomIndex possible rng p of
        (i, p') \<Rightarrow>
          (let recipient = js_nth possible i in
           mvqLoop queensInEpisode rng rest
             (obj_add pts (property_key recipient) (Num 1))
             (asg @ [\<lparr>from_queen = giver, to_queen = recipient\<rparr>]) p'))"

definition runEpisodeSix :: "string list \<Rightarrow> rng \<Rightarrow> nat \<Rightarrow> (episodeRes \<times> nat) option" where
  "runEpisodeSix queensInEpisode rng p =
     (let points0 = fold (\<lambda>q pts. obj_set pts q (Num 0)) queensInEpisode [] in
      case chooseTwoWinners queensInEpisode rng p of
        None \<Rightarrow> None
      | Some (ws, p1) \<Rightarrow>
          (let points1 = fold (\<lambda>w pts. obj_add pts w (Num 2)) ws points0 in
           case pickRandomIndex ws rng p1 of
             (lipIndex, p2) \<Rightarrow>
               (let lipWinner = js_nth ws lipIndex;
                    points2 = obj_add points1 (property_key lipWinner) (Num 1);
                    remaining = filter (\<lambda>q. q \<notin> set ws) queensInEpisode
                in case mvqLoop queensInEpisode rng remaining points2 [] p2 of
                     (points3, asg, p3) \<Rightarrow>
                       Some (\<lparr>points = points3,
                              detail = \<lparr>winners = ws, lipSyncWinner = lipWinner,
                                        mvqAssignments = asg\<rparr>\<rparr>, p3))))"

subsection \<open>rankByPoints\<close>

record standing =
  name :: string
  st_points :: jsval

text \<open>
  \<^verbatim>\<open>(a,b) => b.points - a.points || a.name.localeCompare(b.name)\<close>
  The difference decides unless it is \<open>0\<close> or \<open>NaN\<close>. \<open>String.prototype.localeCompare\<close>
  belongs to the platform, not to the repository: it is the parameter \<open>localeCompare\<close>,
  negative when the first string sorts before the second, \<open>0\<close> when the collation
  takes them for equal.
\<close>

definition compareStandings :: "(string \<Rightarrow> string \<Rightarrow> int) \<Rightarrow> standing \<Rightarrow> standing \<Rightarrow> int" where
  "compareStandings localeCompare x y =
     (case js_minus (st_points y) (st_points x) of
        Num n \<Rightarrow> if n \<noteq> 0 then n else localeCompare (name x) (name y)
      | _ \<Rightarrow> localeCompare (name x) (name y))"

text \<open>
  \<^verbatim>\<open>Array.prototype.sort(cmp)\<close> is stable: elements that compare equal keep their order.
  It is modelled by insertion from the right, each element going before the first element
  it does not compare greater than.
\<close>

fun insort_cmp :: "('a \<Rightarrow> 'a \<Rightarrow> int) \<Rightarrow> 'a \<Rightarrow> 'a list \<Rightarrow> 'a list" where
  "insort_cmp cmp x [] = [x]"
| "insort_cmp cmp x (y # ys) = (if cmp x y \<le> 0 then x # y # ys else y # insort_cmp cmp x ys)"

definition sort_cmp :: "('a \<Rightarrow> 'a \<Rightarrow> int) \<Rightarrow> 'a list \<Rightarrow> 'a list" where
  "sort_cmp cmp xs = foldr (insort_cmp cmp) xs []"

definition rankByPoints :: "(string \<Rightarrow> string \<Rightarrow> int) \<Rightarrow> obj \<Rightarrow> standing list" where
  "rankByPoints localeCompare pointsObj =
     sort_cmp (compareStandings localeCompare)
       (map (\<lambda>k. \<lparr>name = k, st_points = obj_get pointsObj k\<rparr>) (objectKeys pointsObj))"

subsection \<open>sliceIntoBrackets\<close>

datatype error = Error string | TypeError

text \<open>
  \<^verbatim>\<open>brackets[i % bracketCount].push(queens[i])\<close> for \<open>i\<close> from \<open>0\<close>. With
  \<open>bracketCount = 0\<close> there is no \<open>brackets[NaN]\<close> and the first \<open>push\<close> throws a
  \<open>TypeError\<close>.
\<close>

definition sliceIntoBrackets :: "string list \<Rightarrow> nat \<Rightarrow> error + string list list" where
  "sliceIntoBrackets queens bracketCount =
     (if bracketCount = 0 \<and> queens \<noteq> [] then Inl TypeError
      else Inr (fold (\<lambda>i brackets.
                        brackets[i mod bracketCount :=
                                   brackets ! (i mod bracketCount) @ [queens ! i]])
                  [0..<length queens] (replicate bracketCount [])))"

subsection \<open>simulateAllStars10\<close>

text \<open>An element of the input is a string, or an object with a \<open>name\<close> property.\<close>

datatype queenInput = QString string | QObject string

fun queenName :: "queenInput \<Rightarrow> string" where
  "queenName (QString s) = s"
| "queenName (QObject n) = n"

text \<open>
  The options other than \<open>rng\<close>; \<open>None\<close> is an absent option.
  \<^verbatim>\<open>options.bracketCount || 3\<close> takes the default for an absent option and for \<open>0\<close>.
\<close>

record options =
  bracketCount :: "nat option"
  bracketSize :: "nat option"

definition or_default :: "nat option \<Rightarrow> nat \<Rightarrow> nat" where
  "or_default v d = (case v of None \<Rightarrow> d | Some n \<Rightarrow> if n = 0 then d else n)"

text \<open>A count inside a template literal: its decimal digits.\<close>

function show_nat :: "nat \<Rightarrow> string" where
  "show_nat n =
     (if n < 10 then [char_of (48 + n)] else show_nat (n div 10) @ [char_of (48 + n mod 10)])"
  by pat_completeness auto
termination
  by (relation "measure id") auto

record epRecord =
  bracket :: nat
  episodeNumberInBracket :: nat
  episodeGlobalNumber :: nat
  queens :: "string list"
  pointsThisEpisode :: obj
  ep_detail :: detail

record bracketResult =
  bracketIndex :: nat
  br_queens :: "string list"
  br_points :: obj
  standings :: "standing list"
  br_episodes :: "epRecord list"

text \<open>
  A finale pairing is \<^verbatim>\<open>{a, b, winner}\<close>, or the bye
  \<^verbatim>\<open>{a, b: null, winner: a, bye: true}\<close>.
\<close>

datatype pairing = Match string string string | Bye string

record meta =
  format :: string
  generatedAt :: string

record seasonResult =
  meta :: meta
  brackets :: "bracketResult list"
  episodes :: "epRecord list"
  top9 :: "string list"
  semiEliminations :: "string option list"
  finalists :: "string list"
  finaleRounds :: "pairing list list"
  champion :: "string option"

text \<open>\<^verbatim>\<open>for (let ep = 1; ep <= 3; ep++)\<close>, run on the list of the episode numbers.\<close>

fun episodeLoop :: "nat list \<Rightarrow> string list \<Rightarrow> nat \<Rightarrow> rng \<Rightarrow> obj \<Rightarrow> epRecord list \<Rightarrow> nat
    \<Rightarrow> (obj \<times> epRecord list \<times> nat) option" where
  "episodeLoop [] bracketQueens bIndex rng bracketPoints recs p = Some (bracketPoints, recs, p)"
| "episodeLoop (ep # eps) bracketQueens bIndex rng bracketPoints recs p =
     (case runEpisodeSix bracketQueens rng p of
        None \<Rightarrow> None
      | Some (episodeRes, p') \<Rightarrow>
          (let bracketPoints' =
                 fold (\<lambda>q bp. obj_add bp q (obj_get (points episodeRes) q))
                   (objectKeys (points episodeRes)) bracketPoints;
               epRec = \<lparr>bracket = bIndex + 1,
                        episodeNumberInBracket = ep,
                        episodeGlobalNumber = bIndex * 3 + ep,
                        queens = bracketQueens,
                        pointsThisEpisode = points episodeRes,
                        ep_detail = detail episodeRes\<rparr>
           in episodeLoop eps bracketQueens bIndex rng bracketPoints' (recs @ [epRec]) p'))"

text \<open>The body of \<^verbatim>\<open>brackets.forEach((bracketQueens, bracketIndex) => { ... })\<close>.\<close>

definition runBracket :: "(string \<Rightarrow> string \<Rightarrow> int) \<Rightarrow> string list \<Rightarrow> nat \<Rightarrow> rng \<Rightarrow> nat
    \<Rightarrow> (bracketResult \<times> nat) option" where
  "runBracket localeCompare bracketQueens bIndex rng p =
     (let bracketPoints = fold (\<lambda>q bp. obj_set bp q (Num 0)) bracketQueens [] in
      case episodeLoop [1, 2, 3] bracketQueens bIndex rng bracketPoints [] p of
        None \<Rightarrow> None
      | Some (bracketPoints', recs, p') \<Rightarrow>
          Some (\<lparr>bracketIndex = bIndex + 1,
                 br_queens = bracketQueens,
                 br_points = bracketPoints',
                 standings = rankByPoints localeCompare bracketPoints',
                 br_episodes = recs\<rparr>, p'))"

fun bracketsLoop :: "(string \<Rightarrow> string \<Rightarrow> int) \<Rightarrow> string list list \<Rightarrow> nat \<Rightarrow> rng \<Rightarrow> nat
    \<Rightarrow> (bracketResult list \<times> nat) option" where
  "bracketsLoop localeCompare [] bIndex rng p = Some ([], p)"
| "bracketsLoop localeCompare (bracketQueens # rest) bIndex rng p =
     (case runBracket localeCompare bracketQueens bIndex rng p of
        None \<Rightarrow> None
      | Some (br, p') \<Rightarrow>
          (case bracketsLoop localeCompare rest (Suc bIndex) rng p' of
             None \<Rightarrow> None
           | Some (brs, p'') \<Rightarrow> Some (br # brs, p'')))"

text \<open>
  \<^verbatim>\<open>for (let i = 0; i < 2; i++)\<close>: draw an index into the pool, \<open>splice\<close> the element
  out (nothing is removed when the pool is empty) and record it (\<open>undefined\<close> then).
\<close>

fun semiLoop :: "nat \<Rightarrow> rng \<Rightarrow> string list \<Rightarrow> string option list \<Rightarrow> nat
    \<Rightarrow> string list \<times> string option list \<times> nat" where
  "semiLoop 0 rng semiPool semiElims p = (semiPool, semiElims, p)"
| "semiLoop (Suc k) rng semiPool semiElims p =
     (case pickRandomIndex semiPool rng p of
        (elimIndex, p') \<Rightarrow>
          semiLoop k rng (take elimIndex semiPool @ drop (Suc elimIndex) semiPool)
            (semiElims @ [js_nth semiPool elimIndex]) p')"

text \<open>
  \<^verbatim>\<open>for (let i = arr.length - 1; i > 0; i--) { j = Math.floor(rng() * (i + 1)); swap }\<close>
\<close>

fun shuffleLoop :: "nat \<Rightarrow> rng \<Rightarrow> string list \<Rightarrow> nat \<Rightarrow> string list \<times> nat" where
  "shuffleLoop 0 rng arr p = (arr, p)"
| "shuffleLoop (Suc k) rng arr p =
     (let i = Suc k; j = floor_times (rng p) (i + 1)
      in shuffleLoop k rng (arr[i := arr ! j, j := arr ! i]) (Suc p))"

definition shuffle :: "rng \<Rightarrow> string list \<Rightarrow> nat \<Rightarrow> string list \<times> nat" where
  "shuffle rng arr p = shuffleLoop (length arr - 1) rng arr p"

text \<open>One round: the inner \<^verbatim>\<open>for (let i = 0; i < finalContestants.length; i += 2)\<close>.\<close>

fun playRound :: "rng \<Rightarrow> string list \<Rightarrow> nat \<Rightarrow> string list \<times> pairing list \<times> nat" where
  "playRound rng [] p = ([], [], p)"
| "playRound rng [x] p = ([x], [Bye x], p)"
| "playRound rng (x # y # rest) p =
     (let w = (if below_half (rng p) then x else y) in
      case playRound rng rest (Suc p) of
        (nextRound, roundPairs, p') \<Rightarrow> (w # nextRound, Match x y w # roundPairs, p'))"

text \<open>\<^verbatim>\<open>while (finalContestants.length > 1) { ... }\<close>\<close>

function finaleLoop :: "rng \<Rightarrow> string list \<Rightarrow> pairing list list \<Rightarrow> nat
    \<Rightarrow> pairing list list \<times> string list \<times> nat" where
  "finaleLoop rng finalContestants rounds p =
     (if length finalContestants > 1
      then case playRound rng finalContestants p of
             (nextRound, roundPairs, p') \<Rightarrow> finaleLoop rng nextRound (rounds @ [roundPairs]) p'
      else (rounds, finalContestants, p))"
  by pat_completeness auto
termination
proof (relation "measure (\<lambda>(rng, cs, rounds, p). length cs)")
  have len: "length (fst (playRound rng xs p)) = (length xs + 1) div 2" for rng xs p
    by (induction rng xs p rule: playRound.induct) (auto simp: Let_def split: prod.splits)
  fix rng :: rng and finalContestants :: "string list" and rounds :: "pairing list list"
    and p :: nat and nextRound y roundPairs p'
  assume gt: "1 < length finalContestants"
    and xy: "(nextRound, y) = playRound rng finalContestants p"
  from xy have "fst (playRound rng finalContestants p) = nextRound"
    by (metis fst_conv)
  with len[of rng finalContestants p] gt
  show "((rng, nextRound, rounds @ [roundPairs], p'), (rng, finalContestants, rounds, p))
      \<in> measure (\<lambda>(rng, cs, rounds, p). length cs)"
    by simp
qed simp

declare finaleLoop.simps [simp del]

text \<open>
  The season. \<open>localeCompare\<close> is the platform's string collation and \<open>now\<close> is what
  \<^verbatim>\<open>new Date().toISOString()\<close> returns when the result is built; \<open>rng\<close> is the random
  source in use (\<open>options.rng\<close>, or \<open>Math.random\<close>) and \<open>p\<close> its cursor.
  The result is \<open>None\<close> when the run does not return, an error when it throws, and the
  season otherwise; the second component is the cursor the run leaves.
\<close>

definition simulateAllStars10 :: "(string \<Rightarrow> string \<Rightarrow> int) \<Rightarrow> string \<Rightarrow> queenInput list \<Rightarrow> options
    \<Rightarrow> rng \<Rightarrow> nat \<Rightarrow> ((error + seasonResult) \<times> nat) option" where
  "simulateAllStars10 localeCompare now initialQueens opts rng p =
     (let bCount = or_default (bracketCount opts) 3;
          bSize = or_default (bracketSize opts) 6;
          queenNames = map queenName initialQueens
      in if length queenNames \<noteq> bCount * bSize
         then Some (Inl (Error (''AllStars10 expects exactly '' @ show_nat (bCount * bSize)
                  @ '' queens by default (currently got '' @ show_nat (length queenNames)
                  @ '').'')), p)
         else case sliceIntoBrackets queenNames bCount of
           Inl e \<Rightarrow> Some (Inl e, p)
         | Inr bs \<Rightarrow>
             (case bracketsLoop localeCompare bs 0 rng p of
                None \<Rightarrow> None
              | Some (bracketResults, p1) \<Rightarrow>
                  (let pool = concat (map (\<lambda>br. map name (take 3 (standings br))) bracketResults)
                   in case semiLoop 2 rng pool [] p1 of
                     (semiPool, semiElims, p2) \<Rightarrow>
                       (case shuffle rng semiPool p2 of
                          (shuffled, p3) \<Rightarrow>
                            (case finaleLoop rng shuffled [] p3 of
                               (rounds, finalContestants, p4) \<Rightarrow>
                                 Some (Inr \<lparr>meta = \<lparr>format = ''All Stars 10 (custom)'',
                                                    generatedAt = now\<rparr>,
                                            brackets = bracketResults,
                                            episodes = concat (map br_episodes bracketResults),
                                            top9 = pool,
                                            semiEliminations = semiElims,
                                            finalists = semiPool,
                                            finaleRounds = rounds,
                                            champion = js_nth finalContestants 0\<rparr>, p4))))))"

declare redraw.simps [code]

declare show_nat.simps [simp del]

section \<open>Definitions used in the statements\<close>

subsection \<open>Points and awards\<close>



subsection \<open>Standings\<close>

text \<open>
  A point object as the season builds them: the keys are pairwise different and every
  value is a number.
\<close>

definition numeric_object :: "obj \<Rightarrow> bool" where
  "numeric_object ob = (distinct (map fst ob) \<and> list_all (\<lambda>e. \<exists>n. snd e = Num n) ob)"

text \<open>
  \<open>x\<close> may stand before \<open>y\<close> in the standings: more points, or as many points and a
  name that the collation does not put after the other.
\<close>

definition ranked_before :: "(string \<Rightarrow> string \<Rightarrow> int) \<Rightarrow> standing \<Rightarrow> standing \<Rightarrow> bool" where
  "ranked_before lc x y =
     (\<exists>m n. st_points x = Num m \<and> st_points y = Num n
        \<and> (n < m \<or> (n = m \<and> lc (name x) (name y) \<le> 0)))"

text \<open>
  What a sort may expect of a collation: any two strings are comparable, and the order is
  transitive. A collation separates the names when it takes no two different strings for
  equal.
\<close>

definition consistent_collation :: "(string \<Rightarrow> string \<Rightarrow> int) \<Rightarrow> bool" where
  "consistent_collation lc =
     ((\<forall>x y. lc x y \<le> 0 \<or> lc y x \<le> 0)
      \<and> (\<forall>x y z. lc x y \<le> 0 \<longrightarrow> lc y z \<le> 0 \<longrightarrow> lc x z \<le> 0))"

definition separating_collation :: "(string \<Rightarrow> string \<Rightarrow> int) \<Rightarrow> bool" where
  "separating_collation lc = (\<forall>x y. lc x y \<le> 0 \<longrightarrow> lc y x \<le> 0 \<longrightarrow> x = y)"

text \<open>
  Two collations. \<open>codeUnitCompare\<close> is the lexicographic order of the character codes.
  \<open>letterCollation\<close> orders as a dictionary does, and as locale-sensitive collations do on
  ASCII letters: the letters decide whatever their case, and of two strings that differ
  in case only the one with the lower-case letter comes first.
\<close>

definition codeUnitCompare :: "string \<Rightarrow> string \<Rightarrow> int" where
  "codeUnitCompare x y =
     (let a = map of_char x :: nat list; b = map of_char y
      in if a < b then - 1 else if a = b then 0 else 1)"

definition fold_case :: "char \<Rightarrow> nat" where
  "fold_case c = (let n = of_char c in if 65 \<le> n \<and> n \<le> 90 then n + 32 else n)"

definition collation_key :: "string \<Rightarrow> nat list \<times> nat list" where
  "collation_key x = (map fold_case x, map (\<lambda>c. if of_char c = fold_case c then 0 else 1) x)"

definition letterCollation :: "string \<Rightarrow> string \<Rightarrow> int" where
  "letterCollation x y =
     (if collation_key x < collation_key y then - 1
      else if collation_key x = collation_key y then 0 else 1)"

subsection \<open>Finale rounds\<close>





subsection \<open>Random sources that do not get stuck\<close>


subsection \<open>Recorded runs\<close>

text \<open>
  Three recorded random sequences: one of period 11, one that alternates between \<open>0\<close>
  and \<open>1/2\<close>, and one that returns \<open>1/2\<close> for ever.
\<close>

definition sample_rng :: rng where
  "sample_rng i = draw_of ([0, 2, 6, 1, 9, 8, 9, 1, 6, 2, 0] ! (i mod 11)) 11"


definition stuck_rng :: rng where
  "stuck_rng i = draw_of 1 2"

text \<open>One episode replayed on the first sequence.\<close>

definition six_queens :: "string list" where
  "six_queens = [''Ada'', ''Bea'', ''Cyd'', ''Dot'', ''Eve'', ''Fay'']"

definition sample_episode :: episodeRes where
  "sample_episode =
     \<lparr>points = [(''Ada'', Num 3), (''Bea'', Num 3), (''Cyd'', Num 0),
                (''Dot'', Num 1), (''Eve'', Num 1), (''Fay'', Num 1)],
      detail = \<lparr>winners = [''Ada'', ''Bea''],
                lipSyncWinner = Some ''Bea'',
                mvqAssignments =
                  [\<lparr>from_queen = ''Cyd'', to_queen = Some ''Ada''\<rparr>,
                   \<lparr>from_queen = ''Dot'', to_queen = Some ''Fay''\<rparr>,
                   \<lparr>from_queen = ''Eve'', to_queen = Some ''Dot''\<rparr>,
                   \<lparr>from_queen = ''Fay'', to_queen = Some ''Eve''\<rparr>]\<rparr>\<rparr>"

text \<open>A point object with a tie, for the standings.\<close>

definition tied_points :: obj where
  "tied_points = [(''Bea'', Num 3), (''ada'', Num 3), (''Cyd'', Num 5)]"

text \<open>
  A season of eighteen queens replayed on the first sequence, with the default options,
  and the record it returns; the shorthands below only build that record.
\<close>

definition eighteen_queens :: "queenInput list" where
  "eighteen_queens =
     map QString [''Ada'', ''Bea'', ''Cyd'', ''Dot'', ''Eve'', ''Fay'', ''Gia'', ''Hil'', ''Ivy'',
                  ''Joy'', ''Kim'', ''Liz'', ''Mae'', ''Nan'', ''Ora'', ''Pam'', ''Rae'', ''Sue'']"

definition seventeen_queens :: "queenInput list" where
  "seventeen_queens = butlast eighteen_queens"

definition default_options :: options where
  "default_options = \<lparr>bracketCount = None, bracketSize = None\<rparr>"

definition sample_clock :: string where
  "sample_clock = ''2025-06-01T12:00:00.000Z''"

definition later_clock :: string where
  "later_clock = ''2025-06-01T12:00:01.000Z''"

definition numbered :: "string list \<Rightarrow> int list \<Rightarrow> obj" where
  "numbered qs ns = map2 (\<lambda>q n. (q, Num n)) qs ns"

definition standing_of :: "string \<times> int \<Rightarrow> standing" where
  "standing_of e = \<lparr>name = fst e, st_points = Num (snd e)\<rparr>"

definition award :: "string \<Rightarrow> string \<Rightarrow> assignment" where
  "award giver recipient = \<lparr>from_queen = giver, to_queen = Some recipient\<rparr>"

definition episode_of :: "nat \<Rightarrow> nat \<Rightarrow> string list \<Rightarrow> int list \<Rightarrow> string list \<Rightarrow> string
    \<Rightarrow> assignment list \<Rightarrow> epRecord" where
  "episode_of b ep qs ns ws lip asg =
     \<lparr>bracket = b, episodeNumberInBracket = ep, episodeGlobalNumber = (b - 1) * 3 + ep,
      queens = qs, pointsThisEpisode = numbered qs ns,
      ep_detail = \<lparr>winners = ws, lipSyncWinner = Some lip, mvqAssignments = asg\<rparr>\<rparr>"

definition sample_bracket_1 :: bracketResult where
  "sample_bracket_1 =
     (let qs = [''Ada'', ''Dot'', ''Gia'', ''Joy'', ''Mae'', ''Pam''] in
      \<lparr>bracketIndex = 1, br_queens = qs,
       br_points = numbered qs [13, 3, 2, 3, 4, 2],
       standings = map standing_of
         [(''Ada'', 13), (''Mae'', 4), (''Dot'', 3), (''Joy'', 3), (''Gia'', 2), (''Pam'', 2)],
       br_episodes =
        [episode_of 1 1 qs [3, 3, 0, 1, 1, 1]
          [''Ada'', ''Dot''] ''Dot''
          [award ''Gia'' ''Ada'', award ''Joy'' ''Pam'', award ''Mae'' ''Joy'', award ''Pam'' ''Mae''],
         episode_of 1 2 qs [6, 0, 1, 2, 0, 0]
          [''Ada'', ''Joy''] ''Ada''
          [award ''Dot'' ''Ada'', award ''Gia'' ''Ada'', award ''Mae'' ''Ada'', award ''Pam'' ''Gia''],
         episode_of 1 3 qs [4, 0, 1, 0, 3, 1]
          [''Ada'', ''Mae''] ''Mae''
          [award ''Dot'' ''Pam'', award ''Gia'' ''Ada'', award ''Joy'' ''Gia'', award ''Pam'' ''Ada'']]\<rparr>)"

definition sample_bracket_2 :: bracketResult where
  "sample_bracket_2 =
     (let qs = [''Bea'', ''Eve'', ''Hil'', ''Kim'', ''Nan'', ''Rae''] in
      \<lparr>bracketIndex = 2, br_queens = qs,
       br_points = numbered qs [13, 3, 2, 3, 4, 2],
       standings = map standing_of
         [(''Bea'', 13), (''Nan'', 4), (''Eve'', 3), (''Kim'', 3), (''Hil'', 2), (''Rae'', 2)],
       br_episodes =
        [episode_of 2 1 qs [3, 3, 0, 1, 1, 1]
          [''Bea'', ''Eve''] ''Eve''
          [award ''Hil'' ''Bea'', award ''Kim'' ''Rae'', award ''Nan'' ''Kim'', award ''Rae'' ''Nan''],
         episode_of 2 2 qs [6, 0, 1, 2, 0, 0]
          [''Bea'', ''Kim''] ''Bea''
          [award ''Eve'' ''Bea'', award ''Hil'' ''Bea'', award ''Nan'' ''Bea'', award ''Rae'' ''Hil''],
         episode_of 2 3 qs [4, 0, 1, 0, 3, 1]
          [''Bea'', ''Nan''] ''Nan''
          [award ''Eve'' ''Rae'', award ''Hil'' ''Bea'', award ''Kim'' ''Hil'', award ''Rae'' ''Bea'']]\<rparr>)"

definition sample_bracket_3 :: bracketResult where
  "sample_bracket_3 =
     (let qs = [''Cyd'', ''Fay'', ''Ivy'', ''Liz'', ''Ora'', ''Sue''] in
      \<lparr>bracketIndex = 3, br_queens = qs,
       br_points = numbered qs [13, 3, 2, 3, 4, 2],
       standings = map standing_of
         [(''Cyd'', 13), (''Ora'', 4), (''Fay'', 3), (''Liz'', 3), (''Ivy'', 2), (''Sue'', 2)],
       br_episodes =
        [episode_of 3 1 qs [3, 3, 0, 1, 1, 1]
          [''Cyd'', ''Fay''] ''Fay''
          [award ''Ivy'' ''Cyd'', award ''Liz'' ''Sue'', award ''Ora'' ''Liz'', award ''Sue'' ''Ora''],
         episode_of 3 2 qs [6, 0, 1, 2, 0, 0]
          [''Cyd'', ''Liz''] ''Cyd''
          [award ''Fay'' ''Cyd'', award ''Ivy'' ''Cyd'', award ''Ora'' ''Cyd'', award ''Sue'' ''Ivy''],
         episode_of 3 3 qs [4, 0, 1, 0, 3, 1]
          [''Cyd'', ''Ora''] ''Ora''
          [award ''Fay'' ''Sue'', award ''Ivy'' ''Cyd'', award ''Liz'' ''Ivy'', award ''Sue'' ''Cyd'']]\<rparr>)"

definition sample_season :: seasonResult where
  "sample_season =
     \<lparr>meta = \<lparr>format = ''All Stars 10 (custom)'', generatedAt = sample_clock\<rparr>,
      brackets = [sample_bracket_1, sample_bracket_2, sample_bracket_3],
      episodes = br_episodes sample_bracket_1 @ br_episodes sample_bracket_2
                 @ br_episodes sample_bracket_3,
      top9 = [''Ada'', ''Mae'', ''Dot'', ''Bea'', ''Nan'', ''Eve'', ''Cyd'', ''Ora'', ''Fay''],
      semiEliminations = [Some ''Ada'', Some ''Mae''],
      finalists = [''Dot'', ''Bea'', ''Nan'', ''Eve'', ''Cyd'', ''Ora'', ''Fay''],
      finaleRounds =
        [[Match ''Cyd'' ''Fay'' ''Cyd'', Match ''Nan'' ''Ora'' ''Ora'',
          Match ''Dot'' ''Eve'' ''Dot'', Bye ''Bea''],
         [Match ''Cyd'' ''Ora'' ''Cyd'', Match ''Dot'' ''Bea'' ''Dot''],
         [Match ''Cyd'' ''Dot'' ''Cyd'']],
      champion = Some ''Cyd''\<rparr>"

section \<open>The random source and the redraw loop\<close>

lemma floor_times_less: "0 < n \<Longrightarrow> floor_times v n < n"
proof (transfer, clarify)
  fix n :: nat and v :: real
  assume n: "0 < n" and v0: "0 \<le> v" and v1: "v < 1"
  have "v * real n < real n" using n v1 by simp
  then have "\<lfloor>v * real n\<rfloor> < int n" by (simp add: floor_less_iff)
  moreover have "0 \<le> \<lfloor>v * real n\<rfloor>" using v0 by simp
  ultimately show "nat \<lfloor>v * real n\<rfloor> < n" by linarith
qed

lemma floor_times_0: "floor_times v 0 = 0"
  by transfer simp

lemma pickRandomIndex_less:
  "arr \<noteq> [] \<Longrightarrow> pickRandomIndex arr rng p = (i, p') \<Longrightarrow> i < length arr \<and> p' = Suc p"
  by (auto simp: pickRandomIndex_def floor_times_less)


lemma redraw_Some:
  assumes "redraw qs rng a p = Some r"
  shows "fst r \<noteq> a \<and> p < snd r \<and> fst r = floor_times (rng (snd r - 1)) (length qs)"
proof (rule redraw.raw_induct[OF _ assms], goal_cases)
  case (1 redraw' qs rng a p r)
  show ?case
  proof (cases "floor_times (rng p) (length qs) = a")
    case True
    with 1(2) have "redraw' qs rng a (Suc p) = Some r"
      by (simp add: pickRandomIndex_def)
    from 1(1)[OF this] show ?thesis by auto
  next
    case False
    with 1(2) show ?thesis by (auto simp: pickRandomIndex_def)
  qed
qed



lemma chooseTwoWinners_short:
  "length qs < 2 \<Longrightarrow> chooseTwoWinners qs rng p = Some (qs, p)"
  by (simp add: chooseTwoWinners_def)

lemma chooseTwoWinners_two:
  assumes "2 \<le> length qs" and "chooseTwoWinners qs rng p = Some (ws, p')"
  shows "\<exists>a b. a < length qs \<and> b < length qs \<and> a \<noteq> b \<and> ws = [qs ! a, qs ! b]"
proof -
  let ?a = "floor_times (rng p) (length qs)"
  from assms obtain b where r: "redraw qs rng ?a (Suc p) = Some (b, p')"
    and ws: "ws = [qs ! ?a, qs ! b]"
    by (auto simp: chooseTwoWinners_def pickRandomIndex_def split: option.splits)
  from redraw_Some[OF r] have ne: "b \<noteq> ?a" and b: "b = floor_times (rng (p' - 1)) (length qs)"
    by simp_all
  from assms(1) have pos: "0 < length qs" by (cases qs) auto
  have "?a < length qs" by (rule floor_times_less[OF pos])
  moreover have "b < length qs" unfolding b by (rule floor_times_less[OF pos])
  ultimately show ?thesis using ne ws by blast
qed










lemma mvqLoop_awards:
  assumes "\<forall>g\<in>set rem. \<exists>x\<in>set qs. x \<noteq> g"
    and "mvqLoop qs rng rem pts asg p = (pts', asg', p')"
  shows "\<exists>news. asg' = asg @ news \<and> map from_queen news = rem
          \<and> (\<forall>a\<in>set news. \<exists>r. to_queen a = Some r \<and> r \<in> set qs \<and> r \<noteq> from_queen a)
          \<and> p' = p + length rem"
  using assms
proof (induction rem arbitrary: pts asg p)
  case Nil
  then show ?case by simp
next
  case (Cons g rem)
  let ?possible = "filter (\<lambda>x. x \<noteq> g) qs"
  let ?i = "floor_times (rng p) (length ?possible)"
  from Cons.prems(1) have ne: "?possible \<noteq> []"
    by (auto simp: filter_empty_conv)
  then have i: "?i < length ?possible" by (simp add: floor_times_less)
  let ?r = "?possible ! ?i"
  from i have rin: "?r \<in> set ?possible" by (rule nth_mem)
  let ?a0 = "\<lparr>from_queen = g, to_queen = Some ?r\<rparr>"
  from Cons.prems(2) i
  have run: "mvqLoop qs rng rem (obj_add pts ?r (Num 1)) (asg @ [?a0]) (Suc p) = (pts', asg', p')"
    by (simp add: pickRandomIndex_def js_nth_def property_key_def Let_def)
  from Cons.prems(1) have "\<forall>g\<in>set rem. \<exists>x\<in>set qs. x \<noteq> g" by simp
  from Cons.IH[OF this run] obtain news where
    n1: "asg' = (asg @ [?a0]) @ news" and n2: "map from_queen news = rem"
    and n3: "\<forall>a\<in>set news. \<exists>r. to_queen a = Some r \<and> r \<in> set qs \<and> r \<noteq> from_queen a"
    and n4: "p' = Suc p + length rem" by blast
  show ?case
  proof (intro exI[of _ "?a0 # news"] conjI)
    show "asg' = asg @ ?a0 # news" using n1 by simp
    show "map from_queen (?a0 # news) = g # rem" using n2 by simp
    show "\<forall>a\<in>set (?a0 # news). \<exists>r. to_queen a = Some r \<and> r \<in> set qs \<and> r \<noteq> from_queen a"
      using n3 rin by auto
    show "p' = p + length (g # rem)" using n4 by simp
  qed
qed



lemma runEpisodeSix_parts:
  assumes "runEpisodeSix qs rng p = Some (res, p')"
  obtains ws p1 pts3 asg where
    "chooseTwoWinners qs rng p = Some (ws, p1)"
    "mvqLoop qs rng (filter (\<lambda>q. q \<notin> set ws) qs)
       (obj_add (fold (\<lambda>w pts. obj_add pts w (Num 2)) ws
                  (fold (\<lambda>q pts. obj_set pts q (Num 0)) qs []))
          (property_key (js_nth ws (floor_times (rng p1) (length ws)))) (Num 1))
       [] (Suc p1) = (pts3, asg, p')"
    "res = \<lparr>points = pts3,
            detail = \<lparr>winners = ws,
                      lipSyncWinner = js_nth ws (floor_times (rng p1) (length ws)),
                      mvqAssignments = asg\<rparr>\<rparr>"
  using assms
  by (auto simp: runEpisodeSix_def Let_def pickRandomIndex_def split: option.splits prod.splits)

lemma remaining_have_others:
  assumes "chooseTwoWinners qs rng p = Some (ws, p1)"
  shows "\<forall>g\<in>set (filter (\<lambda>q. q \<notin> set ws) qs). \<exists>x\<in>set qs. x \<noteq> g"
proof (cases "length qs < 2")
  case True
  with assms have "ws = qs" by (simp add: chooseTwoWinners_def)
  then show ?thesis by simp
next
  case False
  then have "2 \<le> length qs" by simp
  from chooseTwoWinners_two[OF this assms] obtain a b where
    a: "a < length qs" and ws: "ws = [qs ! a, qs ! b]" by blast
  from a have "qs ! a \<in> set qs" by simp
  with ws show ?thesis by (auto intro: bexI[of _ "qs ! a"])
qed

lemma episode_awards:
  assumes "runEpisodeSix qs rng p = Some (res, p')"
  shows "\<forall>a\<in>set (mvqAssignments (detail res)).
           \<exists>r. to_queen a = Some r \<and> r \<noteq> from_queen a \<and> r \<in> set qs \<and> from_queen a \<in> set qs"
proof -
  from assms obtain ws p1 pts3 asg where
    c: "chooseTwoWinners qs rng p = Some (ws, p1)"
    and m: "mvqLoop qs rng (filter (\<lambda>q. q \<notin> set ws) qs)
       (obj_add (fold (\<lambda>w pts. obj_add pts w (Num 2)) ws
                  (fold (\<lambda>q pts. obj_set pts q (Num 0)) qs []))
          (property_key (js_nth ws (floor_times (rng p1) (length ws)))) (Num 1))
       [] (Suc p1) = (pts3, asg, p')"
    and r: "res = \<lparr>points = pts3,
            detail = \<lparr>winners = ws,
                      lipSyncWinner = js_nth ws (floor_times (rng p1) (length ws)),
                      mvqAssignments = asg\<rparr>\<rparr>"
    by (rule runEpisodeSix_parts)
  from mvqLoop_awards[OF remaining_have_others[OF c] m] obtain news where
    n1: "asg = [] @ news" and n2: "map from_queen news = filter (\<lambda>q. q \<notin> set ws) qs"
    and n3: "\<forall>a\<in>set news. \<exists>r. to_queen a = Some r \<and> r \<in> set qs \<and> r \<noteq> from_queen a"
    by blast
  have "from_queen a \<in> set qs" if "a \<in> set news" for a
  proof -
    from that have "from_queen a \<in> set (map from_queen news)" by simp
    then show ?thesis unfolding n2 by simp
  qed
  with n1 n3 r show ?thesis by auto
qed








section \<open>Round-robin brackets\<close>

lemma filter_mod_block:
  assumes "k < n"
  shows "filter (\<lambda>i. i mod n = k) [m * n..<m * n + n] = [m * n + k]"
proof -
  have "[m * n..<m * n + n] = map (\<lambda>i. m * n + i) [0..<n]"
    by (simp add: map_add_upt add.commute)
  then have "filter (\<lambda>i. i mod n = k) [m * n..<m * n + n]
      = map (\<lambda>i. m * n + i) (filter (\<lambda>i. (m * n + i) mod n = k) [0..<n])"
    by (simp only: filter_map comp_def)
  also have "filter (\<lambda>i. (m * n + i) mod n = k) [0..<n] = filter (\<lambda>i. i = k) [0..<n]"
    by (rule filter_cong) auto
  also have "filter (\<lambda>i. i = k) [0..<n] = [k]"
    using assms by (induction n) auto
  finally show ?thesis by simp
qed

lemma filter_mod_upto:
  assumes "k < n"
  shows "filter (\<lambda>i. i mod n = k) [0..<m * n] = map (\<lambda>j. j * n + k) [0..<m]"
proof (induction m)
  case 0
  show ?case by simp
next
  case (Suc m)
  have "Suc m * n = m * n + n" by simp
  moreover have "[0..<m * n + n] = [0..<m * n] @ [m * n..<m * n + n]"
    by (rule upt_add_eq_append) simp
  ultimately have "filter (\<lambda>i. i mod n = k) [0..<Suc m * n]
      = filter (\<lambda>i. i mod n = k) [0..<m * n] @ filter (\<lambda>i. i mod n = k) [m * n..<m * n + n]"
    by (simp only: filter_append)
  also have "\<dots> = map (\<lambda>j. j * n + k) [0..<m] @ [m * n + k]"
    by (simp only: Suc filter_mod_block[OF assms])
  also have "\<dots> = map (\<lambda>j. j * n + k) [0..<Suc m]" by simp
  finally show ?case .
qed

lemma slice_fold:
  assumes "0 < n"
  shows "length (fold (\<lambda>i bs. bs[i mod n := bs ! (i mod n) @ [qs ! i]]) [0..<m] (replicate n [])) = n
    \<and> (\<forall>k<n. fold (\<lambda>i bs. bs[i mod n := bs ! (i mod n) @ [qs ! i]]) [0..<m] (replicate n []) ! k
          = map (\<lambda>i. qs ! i) (filter (\<lambda>i. i mod n = k) [0..<m]))"
proof (induction m)
  case 0
  show ?case by simp
next
  case (Suc m)
  let ?bs = "fold (\<lambda>i bs. bs[i mod n := bs ! (i mod n) @ [qs ! i]]) [0..<m] (replicate n [])"
  from Suc have len: "length ?bs = n"
    and nth: "\<And>k. k < n \<Longrightarrow> ?bs ! k = map (\<lambda>i. qs ! i) (filter (\<lambda>i. i mod n = k) [0..<m])"
    by simp_all
  have step: "fold (\<lambda>i bs. bs[i mod n := bs ! (i mod n) @ [qs ! i]]) [0..<Suc m] (replicate n [])
      = ?bs[m mod n := ?bs ! (m mod n) @ [qs ! m]]"
    by simp
  from assms have mn: "m mod n < n" by simp
  show ?case unfolding step
  proof (intro conjI allI impI)
    show "length (?bs[m mod n := ?bs ! (m mod n) @ [qs ! m]]) = n" using len by simp
  next
    fix k assume k: "k < n"
    show "?bs[m mod n := ?bs ! (m mod n) @ [qs ! m]] ! k
        = map (\<lambda>i. qs ! i) (filter (\<lambda>i. i mod n = k) [0..<Suc m])"
    proof (cases "k = m mod n")
      case True
      then show ?thesis using len mn nth[OF mn] by simp
    next
      case False
      then show ?thesis using len k nth[OF k] by simp
    qed
  qed
qed

lemma sliceIntoBrackets_spec:
  assumes "0 < n"
  shows "\<exists>bs. sliceIntoBrackets qs n = Inr bs \<and> length bs = n
     \<and> (\<forall>k<n. bs ! k = map (\<lambda>i. qs ! i) (filter (\<lambda>i. i mod n = k) [0..<length qs]))"
  using assms slice_fold[OF assms, of qs "length qs"] by (simp add: sliceIntoBrackets_def)

lemma sliceIntoBrackets_sizes:
  assumes "0 < n" and "length qs = n * m" and "sliceIntoBrackets qs n = Inr bs" and "k < n"
  shows "length (bs ! k) = m"
proof -
  from sliceIntoBrackets_spec[OF assms(1), of qs] assms(3,4)
  have "bs ! k = map (\<lambda>i. qs ! i) (filter (\<lambda>i. i mod n = k) [0..<length qs])" by auto
  then have "length (bs ! k) = length (filter (\<lambda>i. i mod n = k) [0..<m * n])"
    using assms(2) by (simp add: mult.commute)
  also have "\<dots> = m" by (simp only: filter_mod_upto[OF assms(4)] length_map length_upt diff_zero)
  finally show ?thesis .
qed


section \<open>Sorting the standings\<close>

lemma mset_insort_cmp: "mset (insort_cmp cmp x xs) = add_mset x (mset xs)"
  by (induction xs) auto

lemma mset_sort_cmp: "mset (sort_cmp cmp xs) = mset xs"
  by (induction xs) (auto simp: sort_cmp_def mset_insort_cmp)

lemma set_sort_cmp: "set (sort_cmp cmp xs) = set xs"
  using mset_sort_cmp[of cmp xs] by (metis set_mset_mset)

lemma sorted_insort_cmp:
  assumes tot: "\<And>a b. a \<in> A \<Longrightarrow> b \<in> A \<Longrightarrow> cmp a b \<le> 0 \<or> cmp b a \<le> 0"
    and tr: "\<And>a b c. a \<in> A \<Longrightarrow> b \<in> A \<Longrightarrow> c \<in> A \<Longrightarrow> cmp a b \<le> 0 \<Longrightarrow> cmp b c \<le> 0 \<Longrightarrow> cmp a c \<le> 0"
    and "x \<in> A" and "set xs \<subseteq> A" and "sorted_wrt (\<lambda>a b. cmp a b \<le> 0) xs"
  shows "sorted_wrt (\<lambda>a b. cmp a b \<le> (0::int)) (insort_cmp cmp x xs)"
  using assms(3-)
proof (induction xs)
  case Nil
  show ?case by simp
next
  case (Cons y ys)
  show ?case
  proof (cases "cmp x y \<le> 0")
    case True
    have "cmp x z \<le> 0" if "z \<in> set ys" for z
    proof -
      from Cons.prems that have "cmp y z \<le> 0" and "z \<in> A" and "y \<in> A" by auto
      with True Cons.prems(1) show ?thesis using tr by blast
    qed
    with True Cons.prems show ?thesis by auto
  next
    case False
    with tot[of x y] Cons.prems have yx: "cmp y x \<le> 0" by auto
    from Cons.prems have "sorted_wrt (\<lambda>a b. cmp a b \<le> 0) (insort_cmp cmp x ys)"
      by (intro Cons.IH) auto
    moreover have "\<forall>z\<in>set (insort_cmp cmp x ys). cmp y z \<le> 0"
    proof
      fix z assume "z \<in> set (insort_cmp cmp x ys)"
      then have "z \<in># mset (insort_cmp cmp x ys)" by simp
      then have "z = x \<or> z \<in> set ys" by (simp add: mset_insort_cmp)
      with yx Cons.prems show "cmp y z \<le> 0" by auto
    qed
    ultimately show ?thesis using False by simp
  qed
qed

lemma sorted_sort_cmp:
  assumes tot: "\<And>a b. a \<in> A \<Longrightarrow> b \<in> A \<Longrightarrow> cmp a b \<le> 0 \<or> cmp b a \<le> 0"
    and tr: "\<And>a b c. a \<in> A \<Longrightarrow> b \<in> A \<Longrightarrow> c \<in> A \<Longrightarrow> cmp a b \<le> 0 \<Longrightarrow> cmp b c \<le> 0 \<Longrightarrow> cmp a c \<le> 0"
    and "set xs \<subseteq> A"
  shows "sorted_wrt (\<lambda>a b. cmp a b \<le> (0::int)) (sort_cmp cmp xs)"
  using assms(3)
proof (induction xs)
  case Nil
  show ?case by (simp add: sort_cmp_def)
next
  case (Cons x xs)
  have "sort_cmp cmp (x # xs) = insort_cmp cmp x (sort_cmp cmp xs)"
    by (simp add: sort_cmp_def)
  moreover have "sorted_wrt (\<lambda>a b. cmp a b \<le> 0) (insort_cmp cmp x (sort_cmp cmp xs))"
  proof (rule sorted_insort_cmp[where A = A])
    show "x \<in> A" using Cons.prems by simp
    show "set (sort_cmp cmp xs) \<subseteq> A" using Cons.prems by (simp add: set_sort_cmp)
    show "sorted_wrt (\<lambda>a b. cmp a b \<le> 0) (sort_cmp cmp xs)" using Cons by simp
  qed (use tot tr in blast)+
  ultimately show ?case by simp
qed

lemma mset_objectKeys: "mset (objectKeys ob) = mset (map fst ob)"
  by (simp add: objectKeys_def)

lemma obj_get_entry: "distinct (map fst ob) \<Longrightarrow> (k, v) \<in> set ob \<Longrightarrow> obj_get ob k = v"
  by (simp add: obj_get_def)

lemma mset_rankByPoints:
  assumes "distinct (map fst ob)"
  shows "mset (map (\<lambda>s. (name s, st_points s)) (rankByPoints lc ob)) = mset ob"
proof -
  have "mset (map (\<lambda>s. (name s, st_points s)) (rankByPoints lc ob))
      = image_mset (\<lambda>s. (name s, st_points s))
          (mset (map (\<lambda>k. \<lparr>name = k, st_points = obj_get ob k\<rparr>) (objectKeys ob)))"
    by (simp add: rankByPoints_def mset_sort_cmp)
  also have "\<dots> = image_mset (\<lambda>k. (k, obj_get ob k)) (mset (map fst ob))"
    by (simp add: mset_objectKeys image_mset.compositionality comp_def)
  also have "\<dots> = mset (map (\<lambda>e. (fst e, obj_get ob (fst e))) ob)"
    by (simp add: image_mset.compositionality comp_def)
  also have "map (\<lambda>e. (fst e, obj_get ob (fst e))) ob = map (\<lambda>e. e) ob"
    by (rule map_cong) (auto simp: obj_get_entry[OF assms])
  finally show ?thesis by simp
qed


lemma compareStandings_le:
  assumes "st_points x = Num m" and "st_points y = Num n"
  shows "compareStandings lc x y \<le> 0 \<longleftrightarrow> n < m \<or> (n = m \<and> lc (name x) (name y) \<le> 0)"
  using assms by (auto simp: compareStandings_def)

lemma rankByPoints_numeric:
  assumes "distinct (map fst ob)" and "\<forall>e\<in>set ob. \<exists>n. snd e = Num n"
    and "s \<in> set (rankByPoints lc ob)"
  shows "\<exists>n. st_points s = Num n"
proof -
  from assms(3) have "(name s, st_points s) \<in># mset (map (\<lambda>s. (name s, st_points s)) (rankByPoints lc ob))"
    by auto
  then have "(name s, st_points s) \<in> set ob"
    by (simp only: mset_rankByPoints[OF assms(1)] set_mset_mset)
  with assms(2) show ?thesis by fastforce
qed

lemma rankByPoints_sorted:
  assumes keys: "distinct (map fst ob)" and nums: "\<forall>e\<in>set ob. \<exists>n. snd e = Num n"
    and tot: "\<forall>x y. lc x y \<le> 0 \<or> lc y x \<le> 0"
    and tr: "\<forall>x y z. lc x y \<le> 0 \<longrightarrow> lc y z \<le> 0 \<longrightarrow> lc x z \<le> 0"
  shows "sorted_wrt (ranked_before lc) (rankByPoints lc ob)"
proof -
  let ?A = "{s::standing. \<exists>n. st_points s = Num n}"
  let ?xs = "map (\<lambda>k. \<lparr>name = k, st_points = obj_get ob k\<rparr>) (objectKeys ob)"
  have sub: "set ?xs \<subseteq> ?A"
  proof
    fix s assume "s \<in> set ?xs"
    then have "s \<in> set (rankByPoints lc ob)" by (simp add: rankByPoints_def set_sort_cmp)
    from rankByPoints_numeric[OF keys nums this] show "s \<in> ?A" by simp
  qed
  have "sorted_wrt (\<lambda>a b. compareStandings lc a b \<le> 0) (sort_cmp (compareStandings lc) ?xs)"
  proof (rule sorted_sort_cmp[where A = ?A, OF _ _ sub])
    fix a b :: standing assume "a \<in> ?A" and "b \<in> ?A"
    then obtain m n where "st_points a = Num m" and "st_points b = Num n" by auto
    then show "compareStandings lc a b \<le> 0 \<or> compareStandings lc b a \<le> 0"
      using tot by (simp add: compareStandings_le) (metis linorder_less_linear)
  next
    fix a b c :: standing assume "a \<in> ?A" and "b \<in> ?A" and "c \<in> ?A"
      and ab: "compareStandings lc a b \<le> 0" and bc: "compareStandings lc b c \<le> 0"
    then obtain m n k where p: "st_points a = Num m" "st_points b = Num n" "st_points c = Num k"
      by auto
    from ab bc p have "n < m \<or> (n = m \<and> lc (name a) (name b) \<le> 0)"
      and "k < n \<or> (k = n \<and> lc (name b) (name c) \<le> 0)"
      by (simp_all add: compareStandings_le)
    then have "k < m \<or> (k = m \<and> lc (name a) (name c) \<le> 0)"
      using tr by (metis order_less_trans)
    with p show "compareStandings lc a c \<le> 0" by (simp add: compareStandings_le)
  qed
  then have "sorted_wrt (\<lambda>a b. compareStandings lc a b \<le> 0) (rankByPoints lc ob)"
    by (simp add: rankByPoints_def)
  moreover have "ranked_before lc a b"
    if "a \<in> set (rankByPoints lc ob)" "b \<in> set (rankByPoints lc ob)" "compareStandings lc a b \<le> 0"
    for a b
  proof -
    from rankByPoints_numeric[OF keys nums] that obtain m n where
      p: "st_points a = Num m" "st_points b = Num n" by blast
    with that(3) show ?thesis by (auto simp: ranked_before_def compareStandings_le)
  qed
  ultimately show ?thesis by (rule sorted_wrt_mono_rel[rotated])
qed

lemma rankByPoints_strict:
  assumes keys: "distinct (map fst ob)"
    and srt: "sorted_wrt (ranked_before lc) (rankByPoints lc ob)"
    and sep: "\<forall>x y. lc x y \<le> 0 \<longrightarrow> lc y x \<le> 0 \<longrightarrow> x = y"
  shows "sorted_wrt (\<lambda>a b. ranked_before lc a b \<and> \<not> ranked_before lc b a) (rankByPoints lc ob)"
proof -
  let ?r = "rankByPoints lc ob"
  have "image_mset fst (mset (map (\<lambda>s. (name s, st_points s)) ?r)) = image_mset fst (mset ob)"
    by (simp only: mset_rankByPoints[OF keys])
  then have "mset (map name ?r) = mset (map fst ob)"
    by (simp add: image_mset.compositionality comp_def)
  with keys have dn: "distinct (map name ?r)" by (metis mset_eq_imp_distinct_iff)
  show ?thesis unfolding sorted_wrt_iff_nth_less
  proof (intro allI impI conjI)
    fix i j assume ij: "i < j" and j: "j < length ?r"
    from srt ij j show rb: "ranked_before lc (?r ! i) (?r ! j)"
      by (simp add: sorted_wrt_iff_nth_less)
    have "map name ?r ! i \<noteq> map name ?r ! j"
      using nth_eq_iff_index_eq[OF dn, of i j] ij j by simp
    with ij j have ne: "name (?r ! i) \<noteq> name (?r ! j)" by simp
    show "\<not> ranked_before lc (?r ! j) (?r ! i)"
    proof
      assume "ranked_before lc (?r ! j) (?r ! i)"
      with rb have "lc (name (?r ! i)) (name (?r ! j)) \<le> 0 \<and> lc (name (?r ! j)) (name (?r ! i)) \<le> 0"
        by (auto simp: ranked_before_def)
      with sep ne show False by blast
    qed
  qed
qed

lemma codeUnitCompare_total: "codeUnitCompare x y \<le> 0 \<or> codeUnitCompare y x \<le> 0"
  by (auto simp: codeUnitCompare_def Let_def)

lemma codeUnitCompare_trans:
  "codeUnitCompare x y \<le> 0 \<Longrightarrow> codeUnitCompare y z \<le> 0 \<Longrightarrow> codeUnitCompare x z \<le> 0"
  by (auto simp: codeUnitCompare_def Let_def split: if_splits)

lemma codeUnitCompare_separates:
  "codeUnitCompare x y \<le> 0 \<Longrightarrow> codeUnitCompare y x \<le> 0 \<Longrightarrow> x = y"
proof -
  assume "codeUnitCompare x y \<le> 0" and "codeUnitCompare y x \<le> 0"
  then have "map of_char x = (map of_char y :: nat list)"
    by (auto simp: codeUnitCompare_def Let_def split: if_splits)
  then show "x = y" by (simp add: inj_on_def inj_map_eq_map[OF inj_of_char] )
qed

section \<open>Brackets and the pool\<close>







lemma episodeLoop_records:
  assumes "episodeLoop eps qs bi rng bp0 recs p = Some (bp, recs', p')"
  shows "take (length recs) recs' = recs \<and>
    (\<forall>r\<in>set (drop (length recs) recs'). queens r = qs
        \<and> (\<exists>p0 p1 er. runEpisodeSix qs rng p0 = Some (er, p1)
              \<and> pointsThisEpisode r = points er \<and> ep_detail r = detail er))"
  using assms
proof (induction eps arbitrary: bp0 recs p)
  case Nil
  then show ?case by auto
next
  case (Cons ep eps)
  from Cons.prems obtain er p1 where run: "runEpisodeSix qs rng p = Some (er, p1)"
    by (auto split: option.splits)
  let ?rec = "\<lparr>bracket = bi + 1, episodeNumberInBracket = ep, episodeGlobalNumber = bi * 3 + ep,
              queens = qs, pointsThisEpisode = points er, ep_detail = detail er\<rparr>"
  let ?bp = "fold (\<lambda>q bp. obj_add bp q (obj_get (points er) q)) (objectKeys (points er)) bp0"
  from Cons.prems run
  have loop: "episodeLoop eps qs bi rng ?bp (recs @ [?rec]) p1 = Some (bp, recs', p')"
    by (simp add: Let_def)
  from Cons.IH[OF loop] have t: "take (Suc (length recs)) recs' = recs @ [?rec]"
    and d: "\<forall>r\<in>set (drop (Suc (length recs)) recs'). queens r = qs
        \<and> (\<exists>p0 p1 er. runEpisodeSix qs rng p0 = Some (er, p1)
              \<and> pointsThisEpisode r = points er \<and> ep_detail r = detail er)"
    by simp_all
  from t have t1: "take (length recs) recs' = recs"
    by (metis append_eq_conv_conj take_take min.absorb1 le_add2 plus_1_eq_Suc)
  from t have len: "length recs < length recs'"
    by (metis length_append_singleton length_take lessI min_less_iff_conj)
  from t len have nth: "recs' ! length recs = ?rec"
    by (metis nth_append_length nth_take lessI)
  from len have "drop (length recs) recs' = recs' ! length recs # drop (Suc (length recs)) recs'"
    by (simp add: Cons_nth_drop_Suc)
  with nth d run show ?case using t1 by auto
qed




lemma mset_concat_update:
  "k < length bs \<Longrightarrow> mset (concat (bs[k := bs ! k @ [x]])) = add_mset x (mset (concat bs))"
proof (induction bs arbitrary: k)
  case Nil
  then show ?case by simp
next
  case (Cons b bs)
  then show ?case by (cases k) auto
qed

lemma mset_slice_fold:
  assumes "0 < n" and "m \<le> length qs"
  shows "mset (concat (fold (\<lambda>i bs. bs[i mod n := bs ! (i mod n) @ [qs ! i]]) [0..<m] (replicate n [])))
       = mset (take m qs)"
  using assms(2)
proof (induction m)
  case 0
  show ?case by simp
next
  case (Suc m)
  let ?bs = "fold (\<lambda>i bs. bs[i mod n := bs ! (i mod n) @ [qs ! i]]) [0..<m] (replicate n [])"
  from slice_fold[OF assms(1), of qs m] have len: "length ?bs = n" by simp
  with assms(1) have "m mod n < length ?bs" by simp
  from mset_concat_update[OF this, of "qs ! m"] Suc
  show ?case by (simp add: take_Suc_conv_app_nth)
qed

lemma sliceIntoBrackets_mset:
  assumes "0 < n" and "sliceIntoBrackets qs n = Inr bs"
  shows "mset (concat bs) = mset qs"
  using assms mset_slice_fold[OF assms(1), of "length qs" qs]
  by (simp add: sliceIntoBrackets_def)


section \<open>Semifinal, shuffle and finale\<close>








section \<open>When the season returns\<close>







lemma or_default_pos: "0 < d \<Longrightarrow> 0 < or_default v d"
  by (auto simp: or_default_def split: option.splits)

lemma brackets_all_sized:
  assumes "0 < n" and "length qs = n * m" and "sliceIntoBrackets qs n = Inr bs"
  shows "length bs = n \<and> (\<forall>b\<in>set bs. length b = m)"
proof -
  from sliceIntoBrackets_spec[OF assms(1), of qs] assms(3) have len: "length bs = n" by auto
  have "length b = m" if "b \<in> set bs" for b
  proof -
    from that obtain k where "k < length bs" and "bs ! k = b" by (auto simp: in_set_conv_nth)
    with len sliceIntoBrackets_sizes[OF assms, of k] show ?thesis by simp
  qed
  with len show ?thesis by simp
qed

lemma simulate_valid:
  assumes "length initialQueens = or_default (bracketCount opts) 3 * or_default (bracketSize opts) 6"
  obtains bs where
    "sliceIntoBrackets (map queenName initialQueens) (or_default (bracketCount opts) 3) = Inr bs"
    "length bs = or_default (bracketCount opts) 3"
    "\<forall>b\<in>set bs. length b = or_default (bracketSize opts) 6"
    "mset (concat bs) = mset (map queenName initialQueens)"
    "simulateAllStars10 lc now initialQueens opts rng p =
       (case bracketsLoop lc bs 0 rng p of
          None \<Rightarrow> None
        | Some (bracketResults, p1) \<Rightarrow>
            (let pool = concat (map (\<lambda>br. map name (take 3 (standings br))) bracketResults)
             in case semiLoop 2 rng pool [] p1 of
               (semiPool, semiElims, p2) \<Rightarrow>
                 (case shuffle rng semiPool p2 of
                    (shuffled, p3) \<Rightarrow>
                      (case finaleLoop rng shuffled [] p3 of
                         (rounds, finalContestants, p4) \<Rightarrow>
                           Some (Inr \<lparr>meta = \<lparr>format = ''All Stars 10 (custom)'',
                                              generatedAt = now\<rparr>,
                                      brackets = bracketResults,
                                      episodes = concat (map br_episodes bracketResults),
                                      top9 = pool,
                                      semiEliminations = semiElims,
                                      finalists = semiPool,
                                      finaleRounds = rounds,
                                      champion = js_nth finalContestants 0\<rparr>, p4)))))"
proof -
  let ?n = "or_default (bracketCount opts) 3" and ?m = "or_default (bracketSize opts) 6"
  let ?qs = "map queenName initialQueens"
  have n: "0 < ?n" by (rule or_default_pos) simp
  from sliceIntoBrackets_spec[OF n, of ?qs] obtain bs where
    s: "sliceIntoBrackets ?qs ?n = Inr bs" by blast
  from assms have len: "length ?qs = ?n * ?m" by simp
  note sized = brackets_all_sized[OF n len s]
  note ms = sliceIntoBrackets_mset[OF n s]
  have "simulateAllStars10 lc now initialQueens opts rng p =
       (case bracketsLoop lc bs 0 rng p of
          None \<Rightarrow> None
        | Some (bracketResults, p1) \<Rightarrow>
            (let pool = concat (map (\<lambda>br. map name (take 3 (standings br))) bracketResults)
             in case semiLoop 2 rng pool [] p1 of
               (semiPool, semiElims, p2) \<Rightarrow>
                 (case shuffle rng semiPool p2 of
                    (shuffled, p3) \<Rightarrow>
                      (case finaleLoop rng shuffled [] p3 of
                         (rounds, finalContestants, p4) \<Rightarrow>
                           Some (Inr \<lparr>meta = \<lparr>format = ''All Stars 10 (custom)'',
                                              generatedAt = now\<rparr>,
                                      brackets = bracketResults,
                                      episodes = concat (map br_episodes bracketResults),
                                      top9 = pool,
                                      semiEliminations = semiElims,
                                      finalists = semiPool,
                                      finaleRounds = rounds,
                                      champion = js_nth finalContestants 0\<rparr>, p4)))))"
    using assms s by (simp add: simulateAllStars10_def Let_def)
  with s sized ms show ?thesis using that by blast
qed





lemma simulate_clock:
  "simulateAllStars10 lc now' initialQueens opts rng p =
     map_option (\<lambda>(res, p'). (map_sum id (\<lambda>r. r\<lparr>meta := (meta r)\<lparr>generatedAt := now'\<rparr>\<rparr>) res, p'))
       (simulateAllStars10 lc now initialQueens opts rng p)"
  by (simp add: simulateAllStars10_def Let_def split: option.split sum.split prod.split)



lemma simulate_generatedAt:
  assumes "simulateAllStars10 lc now initialQueens opts rng p = Some (Inr r, p')"
  shows "generatedAt (meta r) = now"
proof -
  from simulate_clock[of lc now initialQueens opts rng p now] assms
  have "r\<lparr>meta := (meta r)\<lparr>generatedAt := now\<rparr>\<rparr> = r" by simp
  then have "generatedAt (meta (r\<lparr>meta := (meta r)\<lparr>generatedAt := now\<rparr>\<rparr>)) = generatedAt (meta r)"
    by (rule arg_cong)
  then show ?thesis by simp
qed




lemma eighteen_facts:
  "length eighteen_queens = 18" "distinct (map queenName eighteen_queens)"
  "or_default (bracketCount default_options) 3 = 3" "or_default (bracketSize default_options) 6 = 6"
  by (simp_all add: eighteen_queens_def default_options_def or_default_def)
section \<open>The stages of a returned season\<close>

lemma season_parts:
  assumes "length initialQueens = or_default (bracketCount opts) 3 * or_default (bracketSize opts) 6"
    and "simulateAllStars10 lc now initialQueens opts rng p = Some (res, p')"
  obtains bs brs p1 p2 sh p3 fin r where
    "res = Inr r"
    "length bs = or_default (bracketCount opts) 3"
    "\<forall>b\<in>set bs. length b = or_default (bracketSize opts) 6"
    "mset (concat bs) = mset (map queenName initialQueens)"
    "bracketsLoop lc bs 0 rng p = Some (brs, p1)"
    "brackets r = brs"
    "episodes r = concat (map br_episodes brs)"
    "top9 r = concat (map (\<lambda>br. map name (take 3 (standings br))) brs)"
    "semiLoop 2 rng (top9 r) [] p1 = (finalists r, semiEliminations r, p2)"
    "shuffle rng (finalists r) p2 = (sh, p3)"
    "finaleLoop rng sh [] p3 = (finaleRounds r, fin, p')"
    "champion r = js_nth fin 0"
proof -
  from assms(1) obtain bs where
    len: "length bs = or_default (bracketCount opts) 3"
    and sized: "\<forall>b\<in>set bs. length b = or_default (bracketSize opts) 6"
    and ms: "mset (concat bs) = mset (map queenName initialQueens)"
    and sim: "simulateAllStars10 lc now initialQueens opts rng p =
       (case bracketsLoop lc bs 0 rng p of
          None \<Rightarrow> None
        | Some (bracketResults, p1) \<Rightarrow>
            (let pool = concat (map (\<lambda>br. map name (take 3 (standings br))) bracketResults)
             in case semiLoop 2 rng pool [] p1 of
               (semiPool, semiElims, p2) \<Rightarrow>
                 (case shuffle rng semiPool p2 of
                    (shuffled, p3) \<Rightarrow>
                      (case finaleLoop rng shuffled [] p3 of
                         (rounds, finalContestants, p4) \<Rightarrow>
                           Some (Inr \<lparr>meta = \<lparr>format = ''All Stars 10 (custom)'',
                                              generatedAt = now\<rparr>,
                                      brackets = bracketResults,
                                      episodes = concat (map br_episodes bracketResults),
                                      top9 = pool,
                                      semiEliminations = semiElims,
                                      finalists = semiPool,
                                      finaleRounds = rounds,
                                      champion = js_nth finalContestants 0\<rparr>, p4)))))"
    by (rule simulate_valid[of initialQueens opts lc now rng p])
  from assms(2) sim obtain brs p1 where bl: "bracketsLoop lc bs 0 rng p = Some (brs, p1)"
    by (cases "bracketsLoop lc bs 0 rng p") auto
  let ?pool = "concat (map (\<lambda>br. map name (take 3 (standings br))) brs)"
  obtain sp se p2 where sl: "semiLoop 2 rng ?pool [] p1 = (sp, se, p2)"
    by (cases "semiLoop 2 rng ?pool [] p1") auto
  obtain sh p3 where shf: "shuffle rng sp p2 = (sh, p3)"
    by (cases "shuffle rng sp p2") auto
  obtain rounds fin p4 where fl: "finaleLoop rng sh [] p3 = (rounds, fin, p4)"
    by (cases "finaleLoop rng sh [] p3") auto
  let ?r = "\<lparr>meta = \<lparr>format = ''All Stars 10 (custom)'', generatedAt = now\<rparr>,
             brackets = brs, episodes = concat (map br_episodes brs), top9 = ?pool,
             semiEliminations = se, finalists = sp, finaleRounds = rounds,
             champion = js_nth fin 0\<rparr>"
  from assms(2) have "res = Inr ?r" and "p' = p4"
    unfolding sim bl by (simp_all add: Let_def sl shf fl)
  with len sized ms bl sl shf fl show ?thesis
    by (intro that[of ?r bs brs p1 p2 sh p3 fin]) simp_all
qed









lemma runBracket_records:
  assumes "runBracket lc qs bi rng p = Some (br, p')"
  shows "\<forall>r\<in>set (br_episodes br). queens r = qs
        \<and> (\<exists>p0 p1 er. runEpisodeSix qs rng p0 = Some (er, p1)
              \<and> pointsThisEpisode r = points er \<and> ep_detail r = detail er)"
proof -
  from assms obtain bp recs where
    loop: "episodeLoop [1, 2, 3] qs bi rng (fold (\<lambda>q bp. obj_set bp q (Num 0)) qs []) [] p
             = Some (bp, recs, p')"
    and br: "br_episodes br = recs"
    by (auto simp: runBracket_def split: option.splits)
  from episodeLoop_records[OF loop] br show ?thesis by simp
qed

lemma bracketsLoop_records:
  assumes "bracketsLoop lc bs bi rng p = Some (brs, p')"
  shows "\<forall>r\<in>set (concat (map br_episodes brs)).
           \<exists>p0 p1 er. runEpisodeSix (queens r) rng p0 = Some (er, p1)
              \<and> pointsThisEpisode r = points er \<and> ep_detail r = detail er"
  using assms
proof (induction bs arbitrary: bi p brs)
  case Nil
  then show ?case by auto
next
  case (Cons b bs)
  from Cons.prems obtain br p1 brs1 where
    rb: "runBracket lc b bi rng p = Some (br, p1)"
    and rest: "bracketsLoop lc bs (Suc bi) rng p1 = Some (brs1, p')"
    and brs: "brs = br # brs1"
    by (auto split: option.splits)
  from runBracket_records[OF rb] Cons.IH[OF rest] brs show ?case by auto
qed

lemma season_records:
  assumes "simulateAllStars10 lc now initialQueens opts rng p = Some (Inr r, p')"
  shows "\<forall>e\<in>set (episodes r).
           \<exists>p0 p1 er. runEpisodeSix (queens e) rng p0 = Some (er, p1)
              \<and> pointsThisEpisode e = points er \<and> ep_detail e = detail er"
proof -
  from assms have valid: "length initialQueens
      = or_default (bracketCount opts) 3 * or_default (bracketSize opts) 6"
    by (auto simp: simulateAllStars10_def Let_def split: if_splits)
  from valid assms obtain bs brs p1 where
    bl: "bracketsLoop lc bs 0 rng p = Some (brs, p1)"
    and ep: "episodes r = concat (map br_episodes brs)"
    by (rule season_parts) auto
  from bracketsLoop_records[OF bl] ep show ?thesis by simp
qed

lemma season_awards:
  assumes "simulateAllStars10 lc now initialQueens opts rng p = Some (Inr r, p')"
    and "e \<in> set (episodes r)" and "a \<in> set (mvqAssignments (ep_detail e))"
  shows "\<exists>t. to_queen a = Some t \<and> t \<noteq> from_queen a \<and> t \<in> set (queens e)
           \<and> from_queen a \<in> set (queens e)"
proof -
  from season_records[OF assms(1)] assms(2) obtain p0 p1 er where
    run: "runEpisodeSix (queens e) rng p0 = Some (er, p1)" and d: "ep_detail e = detail er"
    by blast
  from episode_awards[OF run] assms(3) d show ?thesis by auto
qed

lemma runBracket_fields:
  assumes "runBracket lc qs bi rng p = Some (br, p')"
  shows "br_queens br = qs \<and> bracketIndex br = bi + 1"
  using assms by (auto simp: runBracket_def split: option.splits)

lemma bracketsLoop_indices:
  assumes "bracketsLoop lc bs bi rng p = Some (brs, p')"
  shows "length brs = length bs
       \<and> (\<forall>k<length bs. br_queens (brs ! k) = bs ! k \<and> bracketIndex (brs ! k) = bi + k + 1)"
  using assms
proof (induction bs arbitrary: bi p brs)
  case Nil
  then show ?case by auto
next
  case (Cons b bs)
  from Cons.prems obtain br p1 brs1 where
    rb: "runBracket lc b bi rng p = Some (br, p1)"
    and rest: "bracketsLoop lc bs (Suc bi) rng p1 = Some (brs1, p')"
    and brs: "brs = br # brs1"
    by (auto split: option.splits)
  note f = runBracket_fields[OF rb]
  from Cons.IH[OF rest] have len: "length brs1 = length bs"
    and nth: "\<forall>k<length bs. br_queens (brs1 ! k) = bs ! k \<and> bracketIndex (brs1 ! k) = Suc bi + k + 1"
    by simp_all
  show ?case
  proof (intro conjI allI impI)
    show "length brs = length (b # bs)" using len brs by simp
  next
    fix k assume "k < length (b # bs)"
    then show "br_queens (brs ! k) = (b # bs) ! k" using f nth brs by (cases k) auto
  next
    fix k assume "k < length (b # bs)"
    then show "bracketIndex (brs ! k) = bi + k + 1" using f nth brs by (cases k) auto
  qed
qed

lemma season_brackets:
  assumes "simulateAllStars10 lc now initialQueens opts rng p = Some (Inr r, p')"
  shows "\<exists>bs p1. sliceIntoBrackets (map queenName initialQueens) (or_default (bracketCount opts) 3)
                  = Inr bs
              \<and> bracketsLoop lc bs 0 rng p = Some (brackets r, p1)"
proof -
  from assms have valid: "length initialQueens
      = or_default (bracketCount opts) 3 * or_default (bracketSize opts) 6"
    by (auto simp: simulateAllStars10_def Let_def split: if_splits)
  from valid obtain bs where
    s: "sliceIntoBrackets (map queenName initialQueens) (or_default (bracketCount opts) 3) = Inr bs"
    and sim: "simulateAllStars10 lc now initialQueens opts rng p =
       (case bracketsLoop lc bs 0 rng p of
          None \<Rightarrow> None
        | Some (bracketResults, p1) \<Rightarrow>
            (let pool = concat (map (\<lambda>br. map name (take 3 (standings br))) bracketResults)
             in case semiLoop 2 rng pool [] p1 of
               (semiPool, semiElims, p2) \<Rightarrow>
                 (case shuffle rng semiPool p2 of
                    (shuffled, p3) \<Rightarrow>
                      (case finaleLoop rng shuffled [] p3 of
                         (rounds, finalContestants, p4) \<Rightarrow>
                           Some (Inr \<lparr>meta = \<lparr>format = ''All Stars 10 (custom)'',
                                              generatedAt = now\<rparr>,
                                      brackets = bracketResults,
                                      episodes = concat (map br_episodes bracketResults),
                                      top9 = pool,
                                      semiEliminations = semiElims,
                                      finalists = semiPool,
                                      finaleRounds = rounds,
                                      champion = js_nth finalContestants 0\<rparr>, p4)))))"
    by (rule simulate_valid[of initialQueens opts lc now rng p])
  from assms sim obtain brs p1 where bl: "bracketsLoop lc bs 0 rng p = Some (brs, p1)"
    by (cases "bracketsLoop lc bs 0 rng p") auto
  from assms have "brackets r = brs"
    unfolding sim bl by (auto simp: Let_def split: prod.splits)
  with s bl show ?thesis by blast
qed

lemma season_bracket_members:
  assumes "simulateAllStars10 lc now initialQueens opts rng p = Some (Inr r, p')"
    and "n = or_default (bracketCount opts) 3"
  shows "length (brackets r) = n
       \<and> (\<forall>k<n. bracketIndex (brackets r ! k) = k + 1
             \<and> br_queens (brackets r ! k)
                 = map (\<lambda>i. map queenName initialQueens ! i)
                     (filter (\<lambda>i. i mod n = k) [0..<length initialQueens]))"
proof -
  from season_brackets[OF assms(1)] assms(2) obtain bs p1 where
    s: "sliceIntoBrackets (map queenName initialQueens) n = Inr bs"
    and bl: "bracketsLoop lc bs 0 rng p = Some (brackets r, p1)" by auto
  have n: "0 < n" unfolding assms(2) by (rule or_default_pos) simp
  from sliceIntoBrackets_spec[OF n, of "map queenName initialQueens"] s
  have len: "length bs = n"
    and nth: "\<forall>k<n. bs ! k = map (\<lambda>i. map queenName initialQueens ! i)
                (filter (\<lambda>i. i mod n = k) [0..<length initialQueens])" by auto
  from bracketsLoop_indices[OF bl] len nth show ?thesis by auto
qed

section \<open>The recorded runs\<close>

lemma sample_episode_run: "runEpisodeSix six_queens sample_rng 0 = Some (sample_episode, 7)"
  by code_simp


lemma season_run:
  "simulateAllStars10 codeUnitCompare sample_clock eighteen_queens default_options sample_rng 0
     = Some (Inr sample_season, 79)"
  by code_simp

lemma mismatch_run:
  "simulateAllStars10 codeUnitCompare sample_clock seventeen_queens default_options stuck_rng 5
     = Some (Inl (Error ''AllStars10 expects exactly 18 queens by default (currently got 17).''), 5)"
  by code_simp

lemma slice_six:
  "sliceIntoBrackets six_queens 3 = Inr [[''Ada'', ''Dot''], [''Bea'', ''Eve''], [''Cyd'', ''Fay'']]"
  by code_simp

lemma tied_standings:
  "rankByPoints codeUnitCompare tied_points =
     [\<lparr>name = ''Cyd'', st_points = Num 5\<rparr>, \<lparr>name = ''Bea'', st_points = Num 3\<rparr>,
      \<lparr>name = ''ada'', st_points = Num 3\<rparr>]"
  by code_simp

lemma letter_standings:
  "map name (rankByPoints letterCollation [(''B'', Num 0), (''a'', Num 0)]) = [''a'', ''B'']"
  by code_simp

lemma codeUnitCompare_consistent: "consistent_collation codeUnitCompare"
  unfolding consistent_collation_def
  using codeUnitCompare_total codeUnitCompare_trans by blast

lemma codeUnitCompare_separating: "separating_collation codeUnitCompare"
  unfolding separating_collation_def using codeUnitCompare_separates by blast

lemma letterCollation_consistent: "consistent_collation letterCollation"
  unfolding consistent_collation_def letterCollation_def
  by (auto split: if_splits)

section \<open>Claims\<close>

text \<open>
  Claim C1, as amended. Two runs on the same competitor list, options, collation and
  sequence of draws, started at the same cursor, end alike: neither returns, or both throw
  the same error, or both return a season and leave the random source at the same cursor.
  The two seasons are equal in every field but \<open>meta.generatedAt\<close>, which holds the
  time of each run.
\<close>

theorem replay_equal_up_to_timestamp:
  "(simulateAllStars10 lc now1 initialQueens opts rng p = None
      \<longrightarrow> simulateAllStars10 lc now2 initialQueens opts rng p = None)
   \<and> (\<forall>e p'. simulateAllStars10 lc now1 initialQueens opts rng p = Some (Inl e, p')
         \<longrightarrow> simulateAllStars10 lc now2 initialQueens opts rng p = Some (Inl e, p'))
   \<and> (\<forall>r p'. simulateAllStars10 lc now1 initialQueens opts rng p = Some (Inr r, p')
         \<longrightarrow> generatedAt (meta r) = now1
           \<and> simulateAllStars10 lc now2 initialQueens opts rng p
               = Some (Inr (r\<lparr>meta := (meta r)\<lparr>generatedAt := now2\<rparr>\<rparr>), p'))"
proof (intro conjI allI impI)
  note clock = simulate_clock[of lc now2 initialQueens opts rng p now1]
  {
    assume "simulateAllStars10 lc now1 initialQueens opts rng p = None"
    with clock show "simulateAllStars10 lc now2 initialQueens opts rng p = None" by simp
  next
    fix e p'
    assume "simulateAllStars10 lc now1 initialQueens opts rng p = Some (Inl e, p')"
    with clock show "simulateAllStars10 lc now2 initialQueens opts rng p = Some (Inl e, p')"
      by simp
  next
    fix r p'
    assume run: "simulateAllStars10 lc now1 initialQueens opts rng p = Some (Inr r, p')"
    show "generatedAt (meta r) = now1" by (rule simulate_generatedAt[OF run])
    from run clock show "simulateAllStars10 lc now2 initialQueens opts rng p
        = Some (Inr (r\<lparr>meta := (meta r)\<lparr>generatedAt := now2\<rparr>\<rparr>), p')" by simp
  }
qed

theorem replay_equal_up_to_timestamp_witness:
  "simulateAllStars10 codeUnitCompare sample_clock eighteen_queens default_options sample_rng 0
     = Some (Inr sample_season, 79)
   \<and> generatedAt (meta sample_season) = sample_clock
   \<and> simulateAllStars10 codeUnitCompare later_clock eighteen_queens default_options sample_rng 0
     = Some (Inr (sample_season\<lparr>meta := (meta sample_season)\<lparr>generatedAt := later_clock\<rparr>\<rparr>), 79)"
  using replay_equal_up_to_timestamp[of codeUnitCompare sample_clock eighteen_queens
      default_options sample_rng 0 later_clock] season_run
  by blast

text \<open>
  The claim as stated fails: the same eighteen queens, options and draws, run at two
  different times, give two records that are not equal.
\<close>

theorem replay_identical_counterexample:
  "simulateAllStars10 codeUnitCompare sample_clock eighteen_queens default_options sample_rng 0
   \<noteq> simulateAllStars10 codeUnitCompare later_clock eighteen_queens default_options sample_rng 0"
proof
  assume "simulateAllStars10 codeUnitCompare sample_clock eighteen_queens default_options sample_rng 0
    = simulateAllStars10 codeUnitCompare later_clock eighteen_queens default_options sample_rng 0"
  with season_run have "simulateAllStars10 codeUnitCompare later_clock eighteen_queens
      default_options sample_rng 0 = Some (Inr sample_season, 79)" by simp
  from simulate_generatedAt[OF this] simulate_generatedAt[OF season_run]
  have "later_clock = sample_clock" by simp
  then show False by (simp add: later_clock_def sample_clock_def)
qed










text \<open>
  Claim C6, as amended. For a point object with numbers under pairwise different names,
  and a collation that is a consistent order, the standings hold exactly the entries of
  the object, by descending points, and among equal points in ascending order of the
  names under the collation \<open>String.prototype.localeCompare\<close> of the platform (which
  need not be the order of the code points). When the collation takes no two different
  names for equal, no tie is left: of two entries, exactly one may stand before the other.
\<close>

theorem standings_order:
  assumes "numeric_object pointsObj" and "consistent_collation lc"
  shows "mset (map (\<lambda>s. (name s, st_points s)) (rankByPoints lc pointsObj)) = mset pointsObj
       \<and> sorted_wrt (ranked_before lc) (rankByPoints lc pointsObj)
       \<and> (separating_collation lc \<longrightarrow>
            sorted_wrt (\<lambda>x y. ranked_before lc x y \<and> \<not> ranked_before lc y x)
              (rankByPoints lc pointsObj))"
proof -
  from assms(1) have keys: "distinct (map fst pointsObj)"
    and nums: "\<forall>e\<in>set pointsObj. \<exists>n. snd e = Num n"
    by (simp_all add: numeric_object_def list_all_iff)
  from assms(2) have tot: "\<forall>x y. lc x y \<le> 0 \<or> lc y x \<le> 0"
    and tr: "\<forall>x y z. lc x y \<le> 0 \<longrightarrow> lc y z \<le> 0 \<longrightarrow> lc x z \<le> 0"
    by (simp_all add: consistent_collation_def)
  note srt = rankByPoints_sorted[OF keys nums tot tr]
  have "sorted_wrt (\<lambda>x y. ranked_before lc x y \<and> \<not> ranked_before lc y x)
      (rankByPoints lc pointsObj)" if "separating_collation lc"
    using that by (intro rankByPoints_strict[OF keys srt]) (simp add: separating_collation_def)
  with mset_rankByPoints[OF keys] srt show ?thesis by simp
qed

theorem standings_order_witness:
  "numeric_object tied_points \<and> consistent_collation codeUnitCompare
   \<and> separating_collation codeUnitCompare
   \<and> rankByPoints codeUnitCompare tied_points =
       [\<lparr>name = ''Cyd'', st_points = Num 5\<rparr>, \<lparr>name = ''Bea'', st_points = Num 3\<rparr>,
        \<lparr>name = ''ada'', st_points = Num 3\<rparr>]
   \<and> mset (map (\<lambda>s. (name s, st_points s)) (rankByPoints codeUnitCompare tied_points))
       = mset tied_points
   \<and> sorted_wrt (ranked_before codeUnitCompare) (rankByPoints codeUnitCompare tied_points)
   \<and> sorted_wrt (\<lambda>x y. ranked_before codeUnitCompare x y \<and> \<not> ranked_before codeUnitCompare y x)
        (rankByPoints codeUnitCompare tied_points)"
proof -
  have num: "numeric_object tied_points"
    by (simp add: numeric_object_def tied_points_def)
  from standings_order[OF num codeUnitCompare_consistent] codeUnitCompare_separating
    num codeUnitCompare_consistent tied_standings
  show ?thesis by blast
qed

text \<open>
  The claim as stated fails for a collation that orders letters as a dictionary does:
  B and a have equal points, the standings put a first, and the code of B is the smaller.
\<close>

theorem standings_code_point_counterexample:
  "consistent_collation letterCollation
   \<and> map name (rankByPoints letterCollation [(''B'', Num 0), (''a'', Num 0)]) = [''a'', ''B'']
   \<and> codeUnitCompare ''B'' ''a'' < 0"
proof -
  have "codeUnitCompare ''B'' ''a'' < 0" by code_simp
  with letterCollation_consistent letter_standings show ?thesis by simp
qed

text \<open>
  Claim C7. For a positive bracket count \<open>n\<close>, slicing returns \<open>n\<close> brackets; bracket
  \<open>k\<close> (counted from 0) holds the competitors of the input indices \<open>i\<close> with
  \<open>i mod n = k\<close>, in the order of the input, so the competitor of index \<open>i\<close> is in
  bracket \<open>i mod n\<close>; and when the input has \<open>n * m\<close> competitors, every
  bracket has \<open>m\<close> of them. In a season that returns, these are the competitors of the
  bracket results, and the bracket result of position \<open>k\<close> has the index \<open>k + 1\<close>.
\<close>

theorem round_robin_brackets:
  "(0 < n \<longrightarrow>
      (\<exists>bs. sliceIntoBrackets qs n = Inr bs \<and> length bs = n
         \<and> (\<forall>k<n. bs ! k = map (\<lambda>i. qs ! i) (filter (\<lambda>i. i mod n = k) [0..<length qs]))
         \<and> (\<forall>i<length qs. qs ! i \<in> set (bs ! (i mod n)))
         \<and> (\<forall>m. length qs = n * m \<longrightarrow> (\<forall>k<n. length (bs ! k) = m))))
   \<and> (simulateAllStars10 lc now initialQueens opts rng p = Some (Inr r, p')
       \<and> c = or_default (bracketCount opts) 3 \<longrightarrow>
         length (brackets r) = c
         \<and> (\<forall>k<c. bracketIndex (brackets r ! k) = k + 1
               \<and> br_queens (brackets r ! k)
                   = map (\<lambda>i. map queenName initialQueens ! i)
                       (filter (\<lambda>i. i mod c = k) [0..<length initialQueens])))"
proof (intro conjI impI)
  assume pos: "0 < n"
  from sliceIntoBrackets_spec[OF pos, of qs] obtain bs where
    s: "sliceIntoBrackets qs n = Inr bs" and len: "length bs = n"
    and nth: "\<forall>k<n. bs ! k = map (\<lambda>i. qs ! i) (filter (\<lambda>i. i mod n = k) [0..<length qs])"
    by blast
  have mem: "qs ! i \<in> set (bs ! (i mod n))" if "i < length qs" for i
  proof -
    from pos have "i mod n < n" by simp
    with nth have "bs ! (i mod n) = map (\<lambda>j. qs ! j)
        (filter (\<lambda>j. j mod n = i mod n) [0..<length qs])" by simp
    moreover from that have "i \<in> set (filter (\<lambda>j. j mod n = i mod n) [0..<length qs])"
      by simp
    ultimately show ?thesis by (metis (no_types, lifting) image_eqI set_map)
  qed
  have size: "length (bs ! k) = m" if "length qs = n * m" and "k < n" for m k
    using that by (intro sliceIntoBrackets_sizes[OF pos _ s])
  from s len nth mem size
  show "\<exists>bs. sliceIntoBrackets qs n = Inr bs \<and> length bs = n
     \<and> (\<forall>k<n. bs ! k = map (\<lambda>i. qs ! i) (filter (\<lambda>i. i mod n = k) [0..<length qs]))
     \<and> (\<forall>i<length qs. qs ! i \<in> set (bs ! (i mod n)))
     \<and> (\<forall>m. length qs = n * m \<longrightarrow> (\<forall>k<n. length (bs ! k) = m))"
    by blast
next
  assume "simulateAllStars10 lc now initialQueens opts rng p = Some (Inr r, p')
       \<and> c = or_default (bracketCount opts) 3"
  then have run: "simulateAllStars10 lc now initialQueens opts rng p = Some (Inr r, p')"
    and c: "c = or_default (bracketCount opts) 3" by simp_all
  from season_bracket_members[OF run c]
  show "length (brackets r) = c" and "\<forall>k<c. bracketIndex (brackets r ! k) = k + 1
               \<and> br_queens (brackets r ! k)
                   = map (\<lambda>i. map queenName initialQueens ! i)
                       (filter (\<lambda>i. i mod c = k) [0..<length initialQueens])"
    by simp_all
qed

theorem round_robin_brackets_witness:
  "0 < (3::nat)
   \<and> sliceIntoBrackets six_queens 3 = Inr [[''Ada'', ''Dot''], [''Bea'', ''Eve''], [''Cyd'', ''Fay'']]
   \<and> (\<exists>bs. sliceIntoBrackets six_queens 3 = Inr bs \<and> length bs = 3
     \<and> (\<forall>k<3. bs ! k = map (\<lambda>i. six_queens ! i) (filter (\<lambda>i. i mod 3 = k) [0..<length six_queens]))
     \<and> (\<forall>i<length six_queens. six_queens ! i \<in> set (bs ! (i mod 3)))
     \<and> (\<forall>m. length six_queens = 3 * m \<longrightarrow> (\<forall>k<3. length (bs ! k) = m)))
   \<and> simulateAllStars10 codeUnitCompare sample_clock eighteen_queens default_options sample_rng 0
       = Some (Inr sample_season, 79)
   \<and> 3 = or_default (bracketCount default_options) 3
   \<and> length (brackets sample_season) = 3
   \<and> bracketIndex (brackets sample_season ! 1) = 2
   \<and> br_queens (brackets sample_season ! 1) = [''Bea'', ''Eve'', ''Hil'', ''Kim'', ''Nan'', ''Rae'']
   \<and> br_queens (brackets sample_season ! 1)
       = map (\<lambda>i. map queenName eighteen_queens ! i)
           (filter (\<lambda>i. i mod 3 = 1) [0..<length eighteen_queens])"
proof -
  have pos: "0 < (3::nat)" by simp
  have c: "3 = or_default (bracketCount default_options) 3" by (simp add: eighteen_facts)
  have one: "(1::nat) < 3" by simp
  note inst = round_robin_brackets[of 3 six_queens codeUnitCompare sample_clock eighteen_queens
      default_options sample_rng 0 sample_season 79 3]
  from inst pos have ex: "\<exists>bs. sliceIntoBrackets six_queens 3 = Inr bs \<and> length bs = 3
     \<and> (\<forall>k<3. bs ! k = map (\<lambda>i. six_queens ! i) (filter (\<lambda>i. i mod 3 = k) [0..<length six_queens]))
     \<and> (\<forall>i<length six_queens. six_queens ! i \<in> set (bs ! (i mod 3)))
     \<and> (\<forall>m. length six_queens = 3 * m \<longrightarrow> (\<forall>k<3. length (bs ! k) = m))"
    by blast
  from inst season_run c have len: "length (brackets sample_season) = 3"
    and all: "\<forall>k<3. bracketIndex (brackets sample_season ! k) = k + 1
               \<and> br_queens (brackets sample_season ! k)
                   = map (\<lambda>i. map queenName eighteen_queens ! i)
                       (filter (\<lambda>i. i mod 3 = k) [0..<length eighteen_queens])"
    by blast+
  from all one have ix: "bracketIndex (brackets sample_season ! 1) = 2"
    and qs: "br_queens (brackets sample_season ! 1)
       = map (\<lambda>i. map queenName eighteen_queens ! i)
           (filter (\<lambda>i. i mod 3 = 1) [0..<length eighteen_queens])"
    by simp_all
  have b2: "br_queens (brackets sample_season ! 1)
      = [''Bea'', ''Eve'', ''Hil'', ''Kim'', ''Nan'', ''Rae'']"
    by (simp add: sample_season_def sample_bracket_2_def Let_def)
  from pos slice_six ex season_run c len ix b2 qs show ?thesis by (intro conjI)
qed




text \<open>
  Claim C9. In the trace of an episode that returns, on any group whatever, every peer
  award has a recipient, the recipient is not the giver, and giver and recipient are both
  members of the group; and so it is in every episode record of a season that returns.
\<close>

theorem no_self_award:
  "(runEpisodeSix qs rng p = Some (res, p') \<longrightarrow>
      (\<forall>a\<in>set (mvqAssignments (detail res)).
         \<exists>t. to_queen a = Some t \<and> t \<noteq> from_queen a \<and> t \<in> set qs \<and> from_queen a \<in> set qs))
   \<and> (simulateAllStars10 lc now initialQueens opts rng p = Some (Inr r, p'') \<longrightarrow>
      (\<forall>e\<in>set (episodes r). \<forall>a\<in>set (mvqAssignments (ep_detail e)).
         \<exists>t. to_queen a = Some t \<and> t \<noteq> from_queen a \<and> t \<in> set (queens e)
            \<and> from_queen a \<in> set (queens e)))"
  using episode_awards[of qs rng p res p']
    season_awards[of lc now initialQueens opts rng p r p''] by blast

theorem no_self_award_witness:
  "runEpisodeSix six_queens sample_rng 0 = Some (sample_episode, 7)
   \<and> length (mvqAssignments (detail sample_episode)) = 4
   \<and> list_all (\<lambda>a. \<exists>t. to_queen a = Some t \<and> t \<noteq> from_queen a \<and> t \<in> set six_queens
                      \<and> from_queen a \<in> set six_queens)
        (mvqAssignments (detail sample_episode))
   \<and> simulateAllStars10 codeUnitCompare sample_clock eighteen_queens default_options sample_rng 0
       = Some (Inr sample_season, 79)
   \<and> length (episodes sample_season) = 9
   \<and> list_all (\<lambda>e. list_all (\<lambda>a. \<exists>t. to_queen a = Some t \<and> t \<noteq> from_queen a
                        \<and> t \<in> set (queens e) \<and> from_queen a \<in> set (queens e))
                   (mvqAssignments (ep_detail e)))
        (episodes sample_season)"
proof -
  have l4: "length (mvqAssignments (detail sample_episode)) = 4"
    by (simp add: sample_episode_def)
  have l9: "length (episodes sample_season) = 9"
    by (simp add: sample_season_def sample_bracket_1_def sample_bracket_2_def
        sample_bracket_3_def Let_def)
  from no_self_award[of six_queens sample_rng 0 sample_episode 7 codeUnitCompare sample_clock
      eighteen_queens default_options sample_season 79]
    sample_episode_run season_run l4 l9
  show ?thesis by (simp only: list_all_iff) blast
qed



end

